theory Spec2Isabelle
  imports Complex_Main "HOL-Library.Monad_Syntax"
begin

section \<open>Arithmetic on samples\<close>

text \<open>
  The kernel computes on C \<^verbatim>\<open>float\<close> values. Every arithmetic operator of the source
  is one application of an operation of the record below, on an arbitrary type of
  samples: nothing is assumed of the operations (no associativity, no
  commutativity), so what is proved holds for every arithmetic that evaluates each
  operator of the source by one function of its operands, IEEE single precision
  among them. \<open>flit n\<close> is the sample that the constant \<open>n\<close> of the source denotes
  (a \<^verbatim>\<open>float\<close> literal, or an \<^verbatim>\<open>int\<close> literal converted to \<^verbatim>\<open>float\<close> by the usual
  arithmetic conversions).
\<close>

record 'a arith =
  fadd :: "'a \<Rightarrow> 'a \<Rightarrow> 'a"
  fsub :: "'a \<Rightarrow> 'a \<Rightarrow> 'a"
  fmul :: "'a \<Rightarrow> 'a \<Rightarrow> 'a"
  fdiv :: "'a \<Rightarrow> 'a \<Rightarrow> 'a"
  flit :: "int \<Rightarrow> 'a"

text \<open>Exact rational arithmetic, for the statements that are about exact values.\<close>

definition exact :: "rat arith" where
  "exact = \<lparr>fadd = plus, fsub = minus, fmul = times, fdiv = divide, flit = of_int\<rparr>"

text \<open>
  The local array \<^verbatim>\<open>fd_coeff[9]\<close> of \<^verbatim>\<open>step\<close> (vc1.c lines 22-32, vc6.c lines
  97-107): entry by entry \<^verbatim>\<open>numerator / 302702400 / (dx * dx)\<close>, division associating
  to the left.
\<close>

definition fd_coeff :: "'a arith \<Rightarrow> 'a \<Rightarrow> 'a list" where
  "fd_coeff ar dx =
    [fdiv ar (fdiv ar (flit ar (- 924708642)) (flit ar 302702400)) (fmul ar dx dx),
     fdiv ar (fdiv ar (flit ar 538137600) (flit ar 302702400)) (fmul ar dx dx),
     fdiv ar (fdiv ar (flit ar (- 94174080)) (flit ar 302702400)) (fmul ar dx dx),
     fdiv ar (fdiv ar (flit ar 22830080) (flit ar 302702400)) (fmul ar dx dx),
     fdiv ar (fdiv ar (flit ar (- 5350800)) (flit ar 302702400)) (fmul ar dx dx),
     fdiv ar (fdiv ar (flit ar 1053696) (flit ar 302702400)) (fmul ar dx dx),
     fdiv ar (fdiv ar (flit ar (- 156800)) (flit ar 302702400)) (fmul ar dx dx),
     fdiv ar (fdiv ar (flit ar 15360) (flit ar 302702400)) (fmul ar dx dx),
     fdiv ar (fdiv ar (flit ar (- 735)) (flit ar 302702400)) (fmul ar dx dx)]"

section \<open>Memory\<close>

text \<open>
  The arrays of samples that the caller passes (\<^verbatim>\<open>f\<close>, \<^verbatim>\<open>fp\<close>, \<^verbatim>\<open>model_padded2_dt2\<close>,
  \<^verbatim>\<open>sources\<close>) live in a store: an address names an array, a pointer argument is an
  address, an element is reached by an \<^verbatim>\<open>int\<close> index. A load or a store outside the
  array is undefined behaviour in C; here it is \<open>None\<close>, and \<open>None\<close> propagates to
  the result of the call. The \<^verbatim>\<open>restrict\<close> qualifiers are the caller's promise that
  the arrays do not overlap: the functions below are the plain loads and stores of
  the source, and a theorem that needs the promise assumes the addresses distinct.
  C's \<^verbatim>\<open>int\<close> is \<open>int\<close>, without a bound: the model does not represent the
  overflow of an \<^verbatim>\<open>int\<close> computation, which C leaves undefined. \<open>int_ok\<close> is the range
  of a 32-bit \<^verbatim>\<open>int\<close>; in a well-formed call (see \<open>well_formed\<close> below) every index
  that the loops compute stays in that range.
\<close>

type_synonym addr = nat
type_synonym 'a mem = "addr \<Rightarrow> 'a list"

definition int_ok :: "int \<Rightarrow> bool" where
  "int_ok x = (- 2147483648 \<le> x \<and> x \<le> 2147483647)"

definition rd :: "'b list \<Rightarrow> int \<Rightarrow> 'b option" where
  "rd xs n = (if 0 \<le> n \<and> n < int (length xs) then Some (xs ! nat n) else None)"

definition load :: "'a mem \<Rightarrow> addr \<Rightarrow> int \<Rightarrow> 'a option" where
  "load h p n = rd (h p) n"

definition store :: "'a mem \<Rightarrow> addr \<Rightarrow> int \<Rightarrow> 'a \<Rightarrow> 'a mem option" where
  "store h p n v =
     (if 0 \<le> n \<and> n < int (length (h p)) then Some (h(p := (h p)[nat n := v])) else None)"

section \<open>Loops\<close>

text \<open>\<^verbatim>\<open>for (i = a; i < n; i++) body\<close>, the body a state transformer that can fail.\<close>

function for_loop :: "int \<Rightarrow> int \<Rightarrow> (int \<Rightarrow> 's \<Rightarrow> 's option) \<Rightarrow> 's \<Rightarrow> 's option" where
  "for_loop i n body s =
     (if i < n then (case body i s of None \<Rightarrow> None | Some s' \<Rightarrow> for_loop (i + 1) n body s')
      else Some s)"
  by pat_completeness auto
termination
  by (relation "measure (\<lambda>(i, n, body, s). nat (n - i))") auto

declare for_loop.simps [simp del]

text \<open>
  The iterations of a loop in a given order. An \<^verbatim>\<open>omp parallel for\<close> hands the
  iterations of its loop to a team of threads; which iteration runs when is the
  runtime's choice. \<open>iter body sched\<close> runs them in the order \<open>sched\<close>.
\<close>

primrec iter :: "('i \<Rightarrow> 's \<Rightarrow> 's option) \<Rightarrow> 'i list \<Rightarrow> 's \<Rightarrow> 's option" where
  "iter body [] s = Some s"
| "iter body (x # xs) s = (case body x s of None \<Rightarrow> None | Some s' \<Rightarrow> iter body xs s')"

section \<open>The arguments of \<^verbatim>\<open>step\<close>\<close>

text \<open>
  The arguments that the time loop never changes. \<^verbatim>\<open>sources_x\<close> and \<^verbatim>\<open>sources_y\<close>
  are arrays of \<^verbatim>\<open>int\<close>, which no store of a sample reaches. The state of a call is
  the store and the two local pointers \<^verbatim>\<open>f\<close> and \<^verbatim>\<open>fp\<close>, in this order.
\<close>

record args =
  nx :: int
  ny :: int
  nxi :: int
  model_padded2_dt2 :: addr
  sources :: addr
  sources_x :: "int list"
  sources_y :: "int list"
  num_sources :: int
  source_len :: int

type_synonym 'a state = "'a mem \<times> addr \<times> addr"

section \<open>The stencil\<close>

text \<open>
  The parenthesised sum of the four neighbours at offset \<open>k\<close> (vc1.c lines 40-43,
  and each of the eight groups of vc6.c lines 27-64).
\<close>

definition taps :: "'a arith \<Rightarrow> args \<Rightarrow> 'a mem \<Rightarrow> addr \<Rightarrow> int \<Rightarrow> int \<Rightarrow> int \<Rightarrow> 'a option" where
  "taps ar g h f i j k = do {
     a \<leftarrow> load h f (i * nx g + j + k);
     b \<leftarrow> load h f (i * nx g + j - k);
     c \<leftarrow> load h f ((i + k) * nx g + j);
     d \<leftarrow> load h f ((i - k) * nx g + j);
     Some (fadd ar (fadd ar (fadd ar a b) c) d)
   }"

text \<open>vc1.c lines 37-44: \<^verbatim>\<open>f_xx\<close> accumulated by the loop over \<open>k\<close>.\<close>

definition vc1_f_xx :: "'a arith \<Rightarrow> 'a list \<Rightarrow> args \<Rightarrow> 'a mem \<Rightarrow> addr \<Rightarrow> int \<Rightarrow> int \<Rightarrow> 'a option" where
  "vc1_f_xx ar c g h f i j = do {
     x \<leftarrow> load h f (i * nx g + j);
     for_loop 1 9
       (\<lambda>k f_xx. do { t \<leftarrow> taps ar g h f i j k; Some (fadd ar f_xx (fmul ar (c ! nat k) t)) })
       (fmul ar (fmul ar (flit ar 2) (c ! 0)) x)
   }"

text \<open>vc6.c lines 24-64: \<^verbatim>\<open>f_xx\<close> as one expression, \<open>+\<close> associating to the left.\<close>

definition vc6_f_xx :: "'a arith \<Rightarrow> 'a list \<Rightarrow> args \<Rightarrow> 'a mem \<Rightarrow> addr \<Rightarrow> int \<Rightarrow> int \<Rightarrow> 'a option" where
  "vc6_f_xx ar c g h f i j = do {
     x \<leftarrow> load h f (i * nx g + j);
     t1 \<leftarrow> taps ar g h f i j 1;
     t2 \<leftarrow> taps ar g h f i j 2;
     t3 \<leftarrow> taps ar g h f i j 3;
     t4 \<leftarrow> taps ar g h f i j 4;
     t5 \<leftarrow> taps ar g h f i j 5;
     t6 \<leftarrow> taps ar g h f i j 6;
     t7 \<leftarrow> taps ar g h f i j 7;
     t8 \<leftarrow> taps ar g h f i j 8;
     Some (fadd ar (fadd ar (fadd ar (fadd ar (fadd ar (fadd ar (fadd ar (fadd ar
       (fmul ar (fmul ar (flit ar 2) (c ! 0)) x)
       (fmul ar (c ! 1) t1)) (fmul ar (c ! 2) t2)) (fmul ar (c ! 3) t3)) (fmul ar (c ! 4) t4))
       (fmul ar (c ! 5) t5)) (fmul ar (c ! 6) t6)) (fmul ar (c ! 7) t7)) (fmul ar (c ! 8) t8))
   }"

text \<open>
  The assignment to \<^verbatim>\<open>fp[i * nx + j]\<close> (vc1.c lines 46-48, vc6.c lines 66-68), given
  the value of \<^verbatim>\<open>f_xx\<close>.
\<close>

definition leapfrog :: "'a arith \<Rightarrow> args \<Rightarrow> addr \<Rightarrow> addr \<Rightarrow> int \<Rightarrow> int \<Rightarrow> 'a \<Rightarrow> 'a mem \<Rightarrow> 'a mem option" where
  "leapfrog ar g f fp i j f_xx h = do {
     m \<leftarrow> load h (model_padded2_dt2 g) (i * nx g + j);
     x \<leftarrow> load h f (i * nx g + j);
     p \<leftarrow> load h fp (i * nx g + j);
     store h fp (i * nx g + j) (fsub ar (fadd ar (fmul ar m f_xx) (fmul ar (flit ar 2) x)) p)
   }"

text \<open>The body of the loop over \<open>j\<close>, in either file.\<close>

definition vc1_cell :: "'a arith \<Rightarrow> 'a list \<Rightarrow> args \<Rightarrow> addr \<Rightarrow> addr \<Rightarrow> int \<Rightarrow> int \<Rightarrow> 'a mem \<Rightarrow> 'a mem option" where
  "vc1_cell ar c g f fp i j h = do {
     f_xx \<leftarrow> vc1_f_xx ar c g h f i j;
     leapfrog ar g f fp i j f_xx h
   }"

definition vc6_cell :: "'a arith \<Rightarrow> 'a list \<Rightarrow> args \<Rightarrow> addr \<Rightarrow> addr \<Rightarrow> int \<Rightarrow> int \<Rightarrow> 'a mem \<Rightarrow> 'a mem option" where
  "vc6_cell ar c g f fp i j h = do {
     f_xx \<leftarrow> vc6_f_xx ar c g h f i j;
     leapfrog ar g f fp i j f_xx h
   }"

section \<open>Source injection\<close>

text \<open>
  The body of the loop over the sources (vc1.c lines 53-57, vc6.c lines 73-77), for
  source \<open>i\<close> in time step \<open>step\<close>: \<^verbatim>\<open>fp[sy * nx + sx] += model * amplitude\<close>.
\<close>

definition inject :: "'a arith \<Rightarrow> args \<Rightarrow> addr \<Rightarrow> int \<Rightarrow> int \<Rightarrow> 'a mem \<Rightarrow> 'a mem option" where
  "inject ar g fp step i h = do {
     x \<leftarrow> rd (sources_x g) i;
     y \<leftarrow> rd (sources_y g) i;
     let sx = x + 8;
     let sy = y + 8;
     m \<leftarrow> load h (model_padded2_dt2 g) (sy * nx g + sx);
     a \<leftarrow> load h (sources g) (i * source_len g + step);
     p \<leftarrow> load h fp (sy * nx g + sx);
     store h fp (sy * nx g + sx) (fadd ar p (fmul ar m a))
   }"

section \<open>The sequential variant (vc1.c)\<close>

text \<open>The loops over \<open>i\<close> and \<open>j\<close> (lines 35-50), then the loop over the sources.\<close>

definition vc1_interior :: "'a arith \<Rightarrow> 'a list \<Rightarrow> args \<Rightarrow> addr \<Rightarrow> addr \<Rightarrow> 'a mem \<Rightarrow> 'a mem option" where
  "vc1_interior ar c g f fp h =
     for_loop 8 (ny g - 8) (\<lambda>i. for_loop 8 (nxi g + 8) (\<lambda>j. vc1_cell ar c g f fp i j)) h"

definition inject_all :: "'a arith \<Rightarrow> args \<Rightarrow> addr \<Rightarrow> int \<Rightarrow> 'a mem \<Rightarrow> 'a mem option" where
  "inject_all ar g fp step h = for_loop 0 (num_sources g) (inject ar g fp step) h"

text \<open>One pass of the time loop (lines 34-63); the last three lines swap the pointers.\<close>

fun vc1_body :: "'a arith \<Rightarrow> 'a list \<Rightarrow> args \<Rightarrow> int \<Rightarrow> 'a state \<Rightarrow> 'a state option" where
  "vc1_body ar c g step (h, f, fp) = do {
     h1 \<leftarrow> vc1_interior ar c g f fp h;
     h2 \<leftarrow> inject_all ar g fp step h1;
     Some (h2, fp, f)
   }"

text \<open>
  \<^verbatim>\<open>step\<close> of vc1.c. The C function returns nothing; the model returns the store
  and the final values of the local pointers \<^verbatim>\<open>f\<close> and \<^verbatim>\<open>fp\<close>.
\<close>

definition vc1_step :: "'a arith \<Rightarrow> args \<Rightarrow> 'a \<Rightarrow> int \<Rightarrow> 'a state \<Rightarrow> 'a state option" where
  "vc1_step ar g dx num_steps s = for_loop 0 num_steps (vc1_body ar (fd_coeff ar dx) g) s"

section \<open>The parallel variant (vc6.c)\<close>

text \<open>
  \<^verbatim>\<open>inner\<close>: the loop over \<open>i\<close> is an \<^verbatim>\<open>omp parallel for\<close>. Its iterations are
  independent tasks, which the runtime hands to the threads of a team and joins at
  the end of the loop. Here they run one after another in the order \<open>sched\<close>, which
  stands for the choice of the runtime: an iteration stores only into its own row
  of \<^verbatim>\<open>fp\<close> and loads from \<^verbatim>\<open>f\<close>, from the model and from its own slots of \<^verbatim>\<open>fp\<close>, so
  that, for arrays and rows that do not overlap, no iteration sees a store of
  another one and an interleaving of the threads gives what some order gives. The
  loop over \<open>j\<close> inside an iteration and the loop over the sources after the
  parallel region are sequential.
\<close>

definition vc6_interior :: "'a arith \<Rightarrow> int list \<Rightarrow> 'a list \<Rightarrow> args \<Rightarrow> addr \<Rightarrow> addr \<Rightarrow> 'a mem \<Rightarrow> 'a mem option" where
  "vc6_interior ar sched c g f fp h =
     iter (\<lambda>i. for_loop 8 (nxi g + 8) (\<lambda>j. vc6_cell ar c g f fp i j)) sched h"

definition inner :: "'a arith \<Rightarrow> int list \<Rightarrow> addr \<Rightarrow> addr \<Rightarrow> args \<Rightarrow> 'a list \<Rightarrow> int \<Rightarrow> 'a mem \<Rightarrow> 'a mem option" where
  "inner ar sched f fp g c step h = do {
     h1 \<leftarrow> vc6_interior ar sched c g f fp h;
     inject_all ar g fp step h1
   }"

fun vc6_body :: "'a arith \<Rightarrow> (int \<Rightarrow> int list) \<Rightarrow> 'a list \<Rightarrow> args \<Rightarrow> int \<Rightarrow> 'a state \<Rightarrow> 'a state option" where
  "vc6_body ar sched c g step (h, f, fp) = do {
     h' \<leftarrow> inner ar (sched step) f fp g c step h;
     Some (h', fp, f)
   }"

text \<open>\<^verbatim>\<open>step\<close> of vc6.c; \<open>sched t\<close> is the order of the rows in time step \<open>t\<close>.\<close>

definition vc6_step :: "'a arith \<Rightarrow> (int \<Rightarrow> int list) \<Rightarrow> args \<Rightarrow> 'a \<Rightarrow> int \<Rightarrow> 'a state \<Rightarrow> 'a state option" where
  "vc6_step ar sched g dx num_steps s =
     for_loop 0 num_steps (vc6_body ar sched (fd_coeff ar dx) g) s"

text \<open>
  A schedule is admissible when, in every time step, it runs each iteration of
  \<^verbatim>\<open>for (i = 8; i < ny - 8; i++)\<close> once.
\<close>

definition schedule :: "args \<Rightarrow> (int \<Rightarrow> int list) \<Rightarrow> bool" where
  "schedule g sched = (\<forall>t. distinct (sched t) \<and> set (sched t) = {8..<ny g - 8})"

text \<open>The order of the sequential loop.\<close>

definition in_order :: "args \<Rightarrow> int \<Rightarrow> int list" where
  "in_order g t = [8..ny g - 9]"

section \<open>Cells, the update rule and well-formed calls\<close>

text \<open>
  The element of array \<open>p\<close> in row \<open>i\<close> and column \<open>j\<close> of the row-major layout with
  stride \<^verbatim>\<open>nx\<close>, and the flat index of that cell.
\<close>

definition idx :: "args \<Rightarrow> int \<times> int \<Rightarrow> int" where
  "idx g = (\<lambda>(i, j). i * nx g + j)"

definition cell_at :: "'a mem \<Rightarrow> addr \<Rightarrow> args \<Rightarrow> int \<Rightarrow> int \<Rightarrow> 'a" where
  "cell_at h p g i j = h p ! nat (i * nx g + j)"

text \<open>
  The update rule in the words of the specification: the sum of the four neighbours
  at offset \<open>k\<close> in the directions +x, -x, +y, -y; \<open>f_xx\<close> as twice the central
  coefficient times the centre plus, for the taps 1 to 8 in turn, the coefficient
  times that sum; the new value \<open>model * f_xx + 2 * current - previous\<close>.
\<close>

definition nbrs :: "'a arith \<Rightarrow> (int \<Rightarrow> int \<Rightarrow> 'a) \<Rightarrow> int \<Rightarrow> int \<Rightarrow> int \<Rightarrow> 'a" where
  "nbrs ar cur i j k =
     fadd ar (fadd ar (fadd ar (cur i (j + k)) (cur i (j - k))) (cur (i + k) j)) (cur (i - k) j)"

definition laplacian :: "'a arith \<Rightarrow> 'a list \<Rightarrow> (int \<Rightarrow> int \<Rightarrow> 'a) \<Rightarrow> int \<Rightarrow> int \<Rightarrow> 'a" where
  "laplacian ar c cur i j =
     foldl (\<lambda>acc k. fadd ar acc (fmul ar (c ! k) (nbrs ar cur i j (int k))))
       (fmul ar (fmul ar (flit ar 2) (c ! 0)) (cur i j)) [1..<9]"

definition new_value ::
  "'a arith \<Rightarrow> 'a list \<Rightarrow> (int \<Rightarrow> int \<Rightarrow> 'a) \<Rightarrow> (int \<Rightarrow> int \<Rightarrow> 'a) \<Rightarrow> (int \<Rightarrow> int \<Rightarrow> 'a) \<Rightarrow> int \<Rightarrow> int \<Rightarrow> 'a" where
  "new_value ar c model_term cur prev i j =
     fsub ar (fadd ar (fmul ar (model_term i j) (laplacian ar c cur i j))
                      (fmul ar (flit ar 2) (cur i j)))
             (prev i j)"

text \<open>The new value of cell \<open>(i, j)\<close> as computed from the store \<open>h\<close>.\<close>

definition updated :: "'a arith \<Rightarrow> 'a list \<Rightarrow> args \<Rightarrow> 'a mem \<Rightarrow> addr \<Rightarrow> addr \<Rightarrow> int \<times> int \<Rightarrow> 'a" where
  "updated ar c g h f fp = (\<lambda>(i, j).
     new_value ar c (cell_at h (model_padded2_dt2 g) g) (cell_at h f g) (cell_at h fp g) i j)"

text \<open>
  An index inside an array; the four loads of tap \<open>k\<close> inside the array; every
  access that the update of cell \<open>(i, j)\<close> makes inside its array.
\<close>

definition inb :: "'b list \<Rightarrow> int \<Rightarrow> bool" where
  "inb xs n = (0 \<le> n \<and> n < int (length xs))"

definition tap_ok :: "args \<Rightarrow> 'b list \<Rightarrow> int \<Rightarrow> int \<Rightarrow> int \<Rightarrow> bool" where
  "tap_ok g xs i j k =
     (inb xs (i * nx g + j + k) \<and> inb xs (i * nx g + j - k) \<and>
      inb xs ((i + k) * nx g + j) \<and> inb xs ((i - k) * nx g + j))"

definition cell_ok :: "args \<Rightarrow> 'a mem \<Rightarrow> addr \<Rightarrow> addr \<Rightarrow> int \<times> int \<Rightarrow> bool" where
  "cell_ok g h f fp = (\<lambda>(i, j).
     inb (h f) (i * nx g + j) \<and> list_all (tap_ok g (h f) i j) [1, 2, 3, 4, 5, 6, 7, 8] \<and>
     inb (h (model_padded2_dt2 g)) (i * nx g + j) \<and> inb (h fp) (i * nx g + j))"

text \<open>The padded cell \<open>(sy, sx)\<close> of source \<open>s\<close>, row first.\<close>

definition source_cell :: "args \<Rightarrow> int \<Rightarrow> int \<times> int" where
  "source_cell g s = (sources_y g ! nat s + 8, sources_x g ! nat s + 8)"

text \<open>
  What the injections of the sources \<open>ss\<close>, taken from left to right, add to the
  value \<open>v\<close> of the cell at flat index \<open>n\<close>: for each source of \<open>ss\<close> on that cell,
  the model term \<open>m\<close> times the amplitude of the source in time step \<open>t\<close>.
\<close>

definition injected :: "'a arith \<Rightarrow> args \<Rightarrow> 'a list \<Rightarrow> int \<Rightarrow> 'a \<Rightarrow> int \<Rightarrow> int list \<Rightarrow> 'a \<Rightarrow> 'a" where
  "injected ar g amps t m n ss v =
     foldl (\<lambda>acc s. fadd ar acc (fmul ar m (amps ! nat (s * source_len g + t)))) v
       (filter (\<lambda>s. idx g (source_cell g s) = n) ss)"

text \<open>
  Every source lies in the interior: \<^verbatim>\<open>0 <= sources_x[s] < nxi\<close> and
  \<^verbatim>\<open>0 <= sources_y[s] < ny - 16\<close> for each source \<open>s\<close>.
\<close>

definition sources_inside :: "args \<Rightarrow> bool" where
  "sources_inside g =
     list_all (\<lambda>s. 0 \<le> sources_x g ! nat s \<and> sources_x g ! nat s < nxi g \<and>
                    0 \<le> sources_y g ! nat s \<and> sources_y g ! nat s < ny g - 16)
       [0..num_sources g - 1]"

text \<open>
  The caller's side of the contract, as far as the accesses go: the four arrays
  are distinct, the three arrays of the grid hold \<open>ny\<close> rows of \<open>nx\<close> samples, a row of the interior and its halo of
  8 fit into a row of the array, the sources lie in the interior, each source has
  a position and at least \<^verbatim>\<open>num_steps\<close> amplitudes, and the sizes of the arrays are
  values of \<^verbatim>\<open>int\<close>.
\<close>

definition well_formed :: "args \<Rightarrow> 'a mem \<Rightarrow> addr \<Rightarrow> addr \<Rightarrow> int \<Rightarrow> bool" where
  "well_formed g h f fp num_steps =
     (distinct [f, fp, model_padded2_dt2 g, sources g] \<and>
      nxi g + 16 \<le> nx g \<and>
      ny g * nx g \<le> int (length (h f)) \<and> ny g * nx g \<le> int (length (h fp)) \<and>
      ny g * nx g \<le> int (length (h (model_padded2_dt2 g))) \<and>
      sources_inside g \<and>
      num_sources g \<le> int (length (sources_x g)) \<and>
      num_sources g \<le> int (length (sources_y g)) \<and>
      num_sources g * source_len g \<le> int (length (h (sources g))) \<and>
      num_steps \<le> source_len g \<and>
      ny g * nx g \<le> 2147483647 \<and> num_sources g * source_len g \<le> 2147483647)"

text \<open>The cells of the interior region, row by row.\<close>

definition cells :: "args \<Rightarrow> int list \<Rightarrow> (int \<times> int) list" where
  "cells g rows = List.product rows [8..nxi g + 7]"

text \<open>
  The coefficient table in the words of the specification: the fixed numerators,
  each divided by the common denominator and by \<open>dx * dx\<close>.
\<close>

definition numerators :: "int list" where
  "numerators = [- 924708642, 538137600, - 94174080, 22830080, - 5350800, 1053696,
                 - 156800, 15360, - 735]"

definition denominator :: int where
  "denominator = 302702400"

definition coefficient :: "'a arith \<Rightarrow> 'a \<Rightarrow> int \<Rightarrow> 'a" where
  "coefficient ar dx n = fdiv ar (fdiv ar (flit ar n) (flit ar denominator)) (fmul ar dx dx)"

section \<open>A small grid to run the code on\<close>

text \<open>
  The smallest grid with an interior: 17 rows of 17 samples, one interior column,
  so that cell \<open>(8, 8)\<close>, at flat index 144, is the only cell of the interior region.
  The array at address 10 is the current field (a unit sample in the centre), the
  one at 20 the previous field, the one at 30 the model term (3 everywhere), the
  one at 40 the amplitudes of the one source, which sits on cell \<open>(8, 8)\<close>.
\<close>

definition tiny :: args where
  "tiny = \<lparr>nx = 17, ny = 17, nxi = 1, model_padded2_dt2 = 30, sources = 40,
            sources_x = [0], sources_y = [0], num_sources = 1, source_len = 2\<rparr>"

definition tiny_mem :: "rat mem" where
  "tiny_mem = (\<lambda>p. []) (10 := (replicate 289 0)[144 := 1], 20 := replicate 289 0,
                           30 := replicate 289 3, 40 := [5, 7])"

text \<open>
  The same grid with two sources on cell \<open>(8, 8)\<close>, each with one amplitude (5 and 7),
  and a grid of 18 rows, whose interior has the two cells \<open>(8, 8)\<close> and \<open>(9, 8)\<close>,
  at the flat indices 144 and 161.
\<close>

definition tiny2 :: args where
  "tiny2 = tiny\<lparr>sources_x := [0, 0], sources_y := [0, 0], num_sources := 2, source_len := 1\<rparr>"

definition two_rows :: args where
  "two_rows = tiny\<lparr>ny := 18\<rparr>"

definition two_rows_mem :: "rat mem" where
  "two_rows_mem = (\<lambda>p. []) (10 := (replicate 306 0)[144 := 1], 20 := replicate 306 0,
                               30 := replicate 306 3, 40 := [5, 7])"

section \<open>Loops, unrolled\<close>

text \<open>
  A \<^verbatim>\<open>for\<close> loop runs its body on the list of its indices; a list of iterations can
  be split at any index, keeps an invariant of its body, and two nested loops run
  their body on the product of their index lists.
\<close>

lemma for_loop_iter: "for_loop a n body s = iter body [a..n - 1] s"
proof (induction a n body s rule: for_loop.induct)
  case (1 i n body s)
  show ?case
  proof (cases "i < n")
    case True
    then have u: "[i..n - 1] = i # [i + 1..n - 1]"
      by (simp add: upto_rec1)
    show ?thesis
      using True "1.IH" by (subst for_loop.simps) (simp add: u split: option.splits)
  next
    case False
    then show ?thesis
      by (subst for_loop.simps) simp
  qed
qed

lemma for_loop_iter_ext: "for_loop a n body = iter body [a..n - 1]"
  by (rule ext) (rule for_loop_iter)

lemma for_loop_done: "n \<le> a \<Longrightarrow> for_loop a n body s = Some s"
  by (subst for_loop.simps) simp

lemma iter_append:
  "iter body (xs @ ys) s = (case iter body xs s of None \<Rightarrow> None | Some s' \<Rightarrow> iter body ys s')"
  by (induction xs arbitrary: s) (auto split: option.splits)

lemma for_loop_last:
  assumes "a \<le> n"
  shows "for_loop a (n + 1) body s =
     (case for_loop a n body s of None \<Rightarrow> None | Some s' \<Rightarrow> body n s')"
proof -
  from assms have "[a..n + 1 - 1] = [a..n - 1] @ [n]"
    by (simp add: upto_rec2)
  then show ?thesis
    by (simp add: for_loop_iter iter_append split: option.splits)
qed

lemma for_loop_last_step:
  assumes "0 < n" "for_loop 0 n body s = Some s'"
  shows "\<exists>s0. for_loop 0 (n - 1) body s = Some s0 \<and> body (n - 1) s0 = Some s'"
proof -
  from assms(1) have "0 \<le> n - 1" by simp
  from for_loop_last [OF this, of body s] assms(2) show ?thesis
    by (simp split: option.splits)
qed

lemma for_loop_prefix:
  assumes "for_loop 0 n body s = Some s'" "0 \<le> t" "t < n"
  shows "\<exists>st st'. for_loop 0 t body s = Some st \<and> body t st = Some st' \<and>
           for_loop 0 (t + 1) body s = Some st'"
proof -
  from assms(2,3) have "[0..n - 1] = [0..t - 1] @ t # [t + 1..n - 1]"
    by (intro upto_split3) simp_all
  with assms(1) obtain st st' where "for_loop 0 t body s = Some st" "body t st = Some st'"
    by (auto simp: for_loop_iter iter_append split: option.splits)
  moreover from this for_loop_last [OF assms(2), of body s]
  have "for_loop 0 (t + 1) body s = Some st'"
    by simp
  ultimately show ?thesis by blast
qed

lemma for_loop_split:
  assumes "for_loop 0 n body s = Some s'" "0 \<le> t" "t < n"
  shows "\<exists>st st'. for_loop 0 t body s = Some st \<and> body t st = Some st' \<and>
           for_loop 0 (t + 1) body s = Some st' \<and> for_loop (t + 1) n body st' = Some s'"
proof -
  from assms(2,3) have "[0..n - 1] = [0..t - 1] @ t # [t + 1..n - 1]"
    by (intro upto_split3) simp_all
  with assms(1) obtain st st' where p: "for_loop 0 t body s = Some st" "body t st = Some st'"
    and r: "for_loop (t + 1) n body st' = Some s'"
    by (auto simp: for_loop_iter iter_append split: option.splits)
  from p for_loop_last [OF assms(2), of body s]
  have "for_loop 0 (t + 1) body s = Some st'"
    by simp
  with p r show ?thesis by blast
qed

lemma upto_bounds: "nxi g + 8 - 1 = nxi g + 7" "ny g - 8 - 1 = ny g - 9"
  by simp_all

lemma iter_map: "iter body (map g xs) s = iter (\<lambda>x. body (g x)) xs s"
  by (induction xs arbitrary: s) (auto split: option.splits)

lemma iter_product:
  "iter (\<lambda>i. iter (b i) ys) xs s = iter (\<lambda>(i, j). b i j) (List.product xs ys) s"
proof (induction xs arbitrary: s)
  case Nil
  show ?case by simp
next
  case (Cons x xs)
  show ?case
    by (simp add: iter_append iter_map Cons.IH split: option.splits)
qed

lemma iter_inv:
  assumes "\<And>t s s'. I s \<Longrightarrow> body t s = Some s' \<Longrightarrow> I s'"
  shows "iter body ts s = Some s' \<Longrightarrow> I s \<Longrightarrow> I s'"
proof (induction ts arbitrary: s)
  case Nil
  then show ?case by simp
next
  case (Cons t ts)
  from Cons.prems(1) obtain s1 where b: "body t s = Some s1" and r: "iter body ts s1 = Some s'"
    by (auto split: option.splits)
  from Cons.prems(2) b have "I s1"
    by (rule assms)
  with r show ?case
    by (rule Cons.IH)
qed

lemma iter_cong_inv:
  assumes "\<And>t s s'. I s \<Longrightarrow> body2 t s = Some s' \<Longrightarrow> I s'"
    and "\<And>t s. I s \<Longrightarrow> body1 t s = body2 t s"
  shows "I s \<Longrightarrow> iter body1 ts s = iter body2 ts s"
proof (induction ts arbitrary: s)
  case Nil
  show ?case by simp
next
  case (Cons t ts)
  from Cons.prems have e: "body1 t s = body2 t s"
    by (rule assms(2))
  show ?case
  proof (cases "body2 t s")
    case None
    with e show ?thesis by simp
  next
    case (Some s1)
    with Cons.prems have "I s1"
      by (rule assms(1))
    with Some e Cons.IH show ?thesis
      by simp
  qed
qed

section \<open>The update of one cell\<close>

text \<open>
  The two files compute the same \<^verbatim>\<open>f_xx\<close>. The update of a cell either fails or is one
  store into the cell's slot of \<^verbatim>\<open>fp\<close>, of the value that the update rule gives. A
  list of cells with distinct slots can be updated in any order.
\<close>

lemma vc6_f_xx_eq: "vc6_f_xx ar c g h f i j = vc1_f_xx ar c g h f i j"
  unfolding vc6_f_xx_def vc1_f_xx_def
  by (simp add: for_loop.simps split: Option.bind_splits option.splits)

lemma vc6_cell_eq: "vc6_cell ar c g f fp i j = vc1_cell ar c g f fp i j"
  by (rule ext) (simp add: vc6_cell_def vc1_cell_def vc6_f_xx_eq)

lemma load_inb: "load h p n = (if inb (h p) n then Some (h p ! nat n) else None)"
  by (simp add: load_def rd_def inb_def)

lemma rd_inb: "rd xs n = (if inb xs n then Some (xs ! nat n) else None)"
  by (simp add: rd_def inb_def)

lemma taps_eq:
  "taps ar g h f i j k =
     (if tap_ok g (h f) i j k then Some (nbrs ar (cell_at h f g) i j k) else None)"
  by (simp add: taps_def load_inb tap_ok_def nbrs_def cell_at_def algebra_simps)

lemma upt_1_9: "[1..<9] = [1, 2, 3, 4, 5, 6, 7, 8::nat]"
  by code_simp

lemma laplacian_unfold:
  "laplacian ar c cur i j =
     fadd ar (fadd ar (fadd ar (fadd ar (fadd ar (fadd ar (fadd ar (fadd ar
       (fmul ar (fmul ar (flit ar 2) (c ! 0)) (cur i j))
       (fmul ar (c ! 1) (nbrs ar cur i j 1))) (fmul ar (c ! 2) (nbrs ar cur i j 2)))
       (fmul ar (c ! 3) (nbrs ar cur i j 3))) (fmul ar (c ! 4) (nbrs ar cur i j 4)))
       (fmul ar (c ! 5) (nbrs ar cur i j 5))) (fmul ar (c ! 6) (nbrs ar cur i j 6)))
       (fmul ar (c ! 7) (nbrs ar cur i j 7))) (fmul ar (c ! 8) (nbrs ar cur i j 8))"
  unfolding laplacian_def upt_1_9 by simp

lemma vc6_f_xx_closed:
  "vc6_f_xx ar c g h f i j =
     (if inb (h f) (i * nx g + j) \<and> list_all (tap_ok g (h f) i j) [1, 2, 3, 4, 5, 6, 7, 8]
      then Some (laplacian ar c (cell_at h f g) i j) else None)"
  by (simp add: vc6_f_xx_def taps_eq load_inb laplacian_unfold cell_at_def)

lemma vc1_cell_closed:
  "vc1_cell ar c g f fp i j h =
     (if cell_ok g h f fp (i, j)
      then Some (h(fp := (h fp)[nat (i * nx g + j) := updated ar c g h f fp (i, j)]))
      else None)"
  by (simp add: vc1_cell_def vc6_f_xx_eq [symmetric] vc6_f_xx_closed leapfrog_def load_inb
      store_def cell_ok_def updated_def new_value_def cell_at_def inb_def)

lemma cell_step:
  "(case x of (i, j) \<Rightarrow> vc1_cell ar c g f fp i j) h =
     (if cell_ok g h f fp x
      then Some (h(fp := (h fp)[nat (idx g x) := updated ar c g h f fp x]))
      else None)"
  by (cases x) (simp add: vc1_cell_closed idx_def)

lemma cell_ok_lengths:
  "(\<And>q. length (h' q) = length (h q)) \<Longrightarrow> cell_ok g h' f fp x = cell_ok g h f fp x"
  by (simp add: cell_ok_def tap_ok_def inb_def split: prod.splits)

lemma cell_ok_idx: "cell_ok g h f fp x \<Longrightarrow> 0 \<le> idx g x \<and> idx g x < int (length (h fp))"
  by (auto simp: cell_ok_def idx_def inb_def)

lemma cell_at_frame: "p \<noteq> q \<Longrightarrow> cell_at (h(q := xs)) p g = cell_at h p g"
  by (rule ext, rule ext) (simp add: cell_at_def)

lemma updated_frame:
  assumes "f \<noteq> fp" "model_padded2_dt2 g \<noteq> fp" "n \<noteq> nat (idx g x)"
  shows "updated ar c g (h(fp := (h fp)[n := v])) f fp x = updated ar c g h f fp x"
  using assms by (cases x) (simp add: updated_def new_value_def cell_at_frame idx_def, simp add: cell_at_def)

lemma iter_cells_defined:
  assumes step: "\<And>x h. body x h =
     (if cell_ok g h f fp x
      then Some (h(fp := (h fp)[nat (idx g x) := updated ar c g h f fp x])) else None)"
  shows "(iter body cs h \<noteq> None) = (\<forall>x\<in>set cs. cell_ok g h f fp x)"
proof (induction cs arbitrary: h)
  case Nil
  show ?case by simp
next
  case (Cons x cs)
  show ?case
  proof (cases "cell_ok g h f fp x")
    case False
    then have "body x h = None" by (simp add: step)
    with False show ?thesis by simp
  next
    case True
    let ?h1 = "h(fp := (h fp)[nat (idx g x) := updated ar c g h f fp x])"
    have b: "body x h = Some ?h1"
      using True by (simp add: step)
    have eq: "\<And>y. cell_ok g ?h1 f fp y = cell_ok g h f fp y"
      by (rule cell_ok_lengths) simp
    have "(iter body (x # cs) h \<noteq> None) = (iter body cs ?h1 \<noteq> None)"
      by (simp add: b)
    also have "\<dots> = (\<forall>y\<in>set cs. cell_ok g ?h1 f fp y)"
      by (rule Cons.IH)
    also have "\<dots> = (\<forall>y\<in>set cs. cell_ok g h f fp y)"
      by (simp only: eq)
    finally show ?thesis
      using True by simp
  qed
qed

lemma iter_cells_frame:
  assumes step: "\<And>x h. body x h =
     (if cell_ok g h f fp x
      then Some (h(fp := (h fp)[nat (idx g x) := updated ar c g h f fp x])) else None)"
  shows "iter body cs h = Some h' \<Longrightarrow>
     (\<forall>q. q \<noteq> fp \<longrightarrow> h' q = h q) \<and> length (h' fp) = length (h fp) \<and>
     (\<forall>n. n \<notin> (\<lambda>x. nat (idx g x)) ` set cs \<longrightarrow> h' fp ! n = h fp ! n)"
proof (induction cs arbitrary: h)
  case Nil
  then show ?case by simp
next
  case (Cons x cs)
  let ?h1 = "h(fp := (h fp)[nat (idx g x) := updated ar c g h f fp x])"
  have b: "body x h = (if cell_ok g h f fp x then Some ?h1 else None)"
    by (rule step)
  from Cons.prems have r: "iter body cs ?h1 = Some h'"
    by (simp add: b split: if_splits)
  from Cons.IH [OF r] show ?case
    by auto
qed

lemma iter_cells_value:
  assumes step: "\<And>x h. body x h =
     (if cell_ok g h f fp x
      then Some (h(fp := (h fp)[nat (idx g x) := updated ar c g h f fp x])) else None)"
    and "f \<noteq> fp" "model_padded2_dt2 g \<noteq> fp"
  shows "iter body cs h = Some h' \<Longrightarrow> distinct (map (idx g) cs) \<Longrightarrow>
     \<forall>x\<in>set cs. h' fp ! nat (idx g x) = updated ar c g h f fp x"
proof (induction cs arbitrary: h)
  case Nil
  then show ?case by simp
next
  case (Cons x cs)
  let ?h1 = "h(fp := (h fp)[nat (idx g x) := updated ar c g h f fp x])"
  have b: "body x h = (if cell_ok g h f fp x then Some ?h1 else None)"
    by (rule step)
  from Cons.prems(1) have ok: "cell_ok g h f fp x" and r: "iter body cs ?h1 = Some h'"
    by (simp_all add: b split: if_splits)
  have d: "distinct (map (idx g) cs)" and nin: "idx g x \<notin> idx g ` set cs"
    using Cons.prems(2) by simp_all
  have oks: "\<forall>y\<in>set cs. cell_ok g h f fp y"
  proof -
    have "\<forall>y\<in>set cs. cell_ok g ?h1 f fp y"
      using r iter_cells_defined [of body g f fp ar c cs ?h1, OF step] by simp
    moreover have "\<And>y. cell_ok g ?h1 f fp y = cell_ok g h f fp y"
      by (rule cell_ok_lengths) simp
    ultimately show ?thesis by simp
  qed
  have ne: "nat (idx g x) \<noteq> nat (idx g y)" if "y \<in> set cs" for y
  proof -
    from that nin have "idx g x \<noteq> idx g y" by auto
    moreover from ok have "0 \<le> idx g x" by (simp add: cell_ok_idx)
    moreover from oks that have "0 \<le> idx g y" using cell_ok_idx [of g h f fp y] by blast
    ultimately show ?thesis by simp
  qed
  have tl: "h' fp ! nat (idx g y) = updated ar c g h f fp y" if "y \<in> set cs" for y
  proof -
    from Cons.IH [OF r d] that have "h' fp ! nat (idx g y) = updated ar c g ?h1 f fp y"
      by (rule bspec)
    also have "\<dots> = updated ar c g h f fp y"
      using assms(2,3) ne [OF that] by (simp add: updated_frame)
    finally show ?thesis .
  qed
  have hd: "h' fp ! nat (idx g x) = updated ar c g h f fp x"
  proof -
    have "nat (idx g x) \<notin> (\<lambda>y. nat (idx g y)) ` set cs"
      using ne by auto
    with iter_cells_frame [of body g f fp ar c cs ?h1 h', OF step r]
    have "h' fp ! nat (idx g x) = ?h1 fp ! nat (idx g x)"
      by simp
    also have "\<dots> = updated ar c g h f fp x"
      using cell_ok_idx [OF ok] by (simp add: nat_less_iff)
    finally show ?thesis .
  qed
  from hd tl show ?case by simp
qed

lemma iter_cells_perm:
  assumes step: "\<And>x h. body x h =
     (if cell_ok g h f fp x
      then Some (h(fp := (h fp)[nat (idx g x) := updated ar c g h f fp x])) else None)"
    and ne: "f \<noteq> fp" "model_padded2_dt2 g \<noteq> fp"
    and same: "set cs1 = set cs2"
    and d1: "distinct (map (idx g) cs1)" and d2: "distinct (map (idx g) cs2)"
  shows "iter body cs1 h = iter body cs2 h"
proof (cases "\<forall>x\<in>set cs1. cell_ok g h f fp x")
  case False
  with iter_cells_defined [of body g f fp ar c cs1 h, OF step]
  have "iter body cs1 h = None" by blast
  moreover from False same iter_cells_defined [of body g f fp ar c cs2 h, OF step]
  have "iter body cs2 h = None" by blast
  ultimately show ?thesis by simp
next
  case True
  with iter_cells_defined [of body g f fp ar c cs1 h, OF step]
  obtain h1 where r1: "iter body cs1 h = Some h1"
    by blast
  from True same iter_cells_defined [of body g f fp ar c cs2 h, OF step]
  obtain h2 where r2: "iter body cs2 h = Some h2"
    by blast
  note f1 = iter_cells_frame [of body g f fp ar c cs1 h h1, OF step r1]
  note f2 = iter_cells_frame [of body g f fp ar c cs2 h h2, OF step r2]
  note v1 = iter_cells_value [of body g f fp ar c cs1 h h1, OF step ne r1 d1]
  note v2 = iter_cells_value [of body g f fp ar c cs2 h h2, OF step ne r2 d2]
  have "h1 q = h2 q" for q
  proof (cases "q = fp")
    case False
    with f1 f2 show ?thesis by simp
  next
    case True
    have "h1 fp = h2 fp"
    proof (rule nth_equalityI)
      show "length (h1 fp) = length (h2 fp)"
        using f1 f2 by simp
    next
      fix k
      assume "k < length (h1 fp)"
      show "h1 fp ! k = h2 fp ! k"
      proof (cases "k \<in> (\<lambda>x. nat (idx g x)) ` set cs1")
        case True
        then obtain x where x: "x \<in> set cs1" "k = nat (idx g x)"
          by auto
        with v1 v2 same show ?thesis
          by simp
      next
        case False
        with f1 f2 same show ?thesis
          by simp
      qed
    qed
    with True show ?thesis by simp
  qed
  then have "h1 = h2" by (rule ext)
  with r1 r2 show ?thesis by simp
qed

section \<open>The interior as a list of cells\<close>

lemma vc1_interior_cells:
  "vc1_interior ar c g f fp h =
     iter (\<lambda>(i, j). vc1_cell ar c g f fp i j) (cells g [8..ny g - 9]) h"
proof -
  have "vc1_interior ar c g f fp h =
      iter (\<lambda>i. iter (\<lambda>j. vc1_cell ar c g f fp i j) [8..nxi g + 7]) [8..ny g - 9] h"
    by (simp only: vc1_interior_def for_loop_iter_ext upto_bounds)
  then show ?thesis
    by (simp add: iter_product cells_def)
qed

lemma vc6_interior_cells:
  "vc6_interior ar rows c g f fp h =
     iter (\<lambda>(i, j). vc1_cell ar c g f fp i j) (cells g rows) h"
proof -
  have "vc6_interior ar rows c g f fp h =
      iter (\<lambda>i. iter (\<lambda>j. vc1_cell ar c g f fp i j) [8..nxi g + 7]) rows h"
    by (simp only: vc6_interior_def for_loop_iter_ext vc6_cell_eq upto_bounds)
  then show ?thesis
    by (simp add: iter_product cells_def)
qed

lemma set_cells: "set (cells g rows) = set rows \<times> {8..<nxi g + 8}"
  by (auto simp: cells_def)

lemma rows_in_order: "set [8..ny g - 9] = {8..<ny g - 8}"
  by auto

lemma cells_any_order:
  "set rows = {8..<ny g - 8} \<Longrightarrow> set (cells g rows) = set (cells g [8..ny g - 9])"
  by (simp only: set_cells rows_in_order)

lemma idx_inj:
  assumes "i * w + j = i' * w + j'" "0 \<le> j" "j < w" "0 \<le> j'" "j' < w"
  shows "i = i' \<and> j = (j' :: int)"
proof -
  from assms have w: "w \<noteq> 0" by auto
  from assms(2,3) w have "i = (i * w + j) div w"
    by simp
  also have "\<dots> = (i' * w + j') div w"
    by (simp only: assms(1))
  also from assms(4,5) w have "\<dots> = i'"
    by simp
  finally have "i = i'" .
  with assms(1) show ?thesis by simp
qed

lemma distinct_idx_cells:
  assumes "nxi g + 8 \<le> nx g" "distinct rows"
  shows "distinct (map (idx g) (cells g rows))"
proof -
  have "distinct (cells g rows)"
    using assms(2) by (simp add: cells_def distinct_product)
  moreover have "inj_on (idx g) (set (cells g rows))"
  proof (rule inj_onI)
    fix x y
    assume x: "x \<in> set (cells g rows)" and y: "y \<in> set (cells g rows)"
      and e: "idx g x = idx g y"
    obtain i j where xe: "x = (i, j)" by (cases x)
    obtain i' j' where ye: "y = (i', j')" by (cases y)
    from x xe assms(1) have j: "0 \<le> j" "j < nx g"
      by (simp_all add: set_cells)
    from y ye assms(1) have j': "0 \<le> j'" "j' < nx g"
      by (simp_all add: set_cells)
    from e have "i * nx g + j = i' * nx g + j'"
      by (simp add: xe ye idx_def)
    from idx_inj [OF this j j'] show "x = y"
      by (simp add: xe ye)
  qed
  ultimately show ?thesis
    by (simp add: distinct_map)
qed

lemma cells_pass:
  assumes "cur \<noteq> prev" "model_padded2_dt2 g \<noteq> prev" "nxi g + 8 \<le> nx g" "distinct rows"
    and run: "iter (\<lambda>(i, j). vc1_cell ar c g cur prev i j) (cells g rows) h = Some h1"
    and cell: "i \<in> set rows" "8 \<le> j" "j < nxi g + 8"
  shows "cell_at h1 prev g i j =
     new_value ar c (cell_at h (model_padded2_dt2 g) g) (cell_at h cur g) (cell_at h prev g) i j"
proof -
  from cell have m: "(i, j) \<in> set (cells g rows)"
    by (simp add: set_cells)
  have d: "distinct (map (idx g) (cells g rows))"
    using assms(3,4) by (rule distinct_idx_cells)
  from iter_cells_value [OF cell_step assms(1,2) run d] m
  have "h1 prev ! nat (idx g (i, j)) = updated ar c g h cur prev (i, j)"
    by (rule bspec)
  then show ?thesis
    by (simp add: idx_def updated_def cell_at_def)
qed

lemma vc6_interior_any_order:
  assumes "f \<noteq> fp" "model_padded2_dt2 g \<noteq> fp" "nxi g + 8 \<le> nx g"
    and "distinct rows" "set rows = {8..<ny g - 8}"
  shows "vc6_interior ar rows c g f fp h = vc1_interior ar c g f fp h"
proof -
  have "{8..<ny g - 8} = {8..ny g - 9}"
    by auto
  then have s: "set (cells g rows) = set (cells g [8..ny g - 9])"
    by (simp add: set_cells assms(5))
  have d1: "distinct (map (idx g) (cells g rows))"
    using assms(3,4) by (rule distinct_idx_cells)
  have d2: "distinct (map (idx g) (cells g [8..ny g - 9]))"
    using assms(3) by (rule distinct_idx_cells) simp
  show ?thesis
    unfolding vc6_interior_cells vc1_interior_cells
    by (rule iter_cells_perm [where body = "\<lambda>(i, j). vc1_cell ar c g f fp i j" and ar = ar and c = c,
          OF cell_step assms(1,2) s d1 d2])
qed

lemma outside_region:
  assumes "nxi g + 8 \<le> nx g" "set rows = {8..<ny g - 8}"
    and "0 \<le> i" "0 \<le> j" "j < nx g"
    and out: "\<not> (8 \<le> i \<and> i < ny g - 8 \<and> 8 \<le> j \<and> j < nxi g + 8)"
  shows "nat (i * nx g + j) \<notin> (\<lambda>x. nat (idx g x)) ` set (cells g rows)"
proof
  assume "nat (i * nx g + j) \<in> (\<lambda>x. nat (idx g x)) ` set (cells g rows)"
  then obtain i' j' where c: "8 \<le> i'" "i' < ny g - 8" "8 \<le> j'" "j' < nxi g + 8"
    and e: "nat (i * nx g + j) = nat (i' * nx g + j')"
    using assms(2) by (auto simp: set_cells idx_def)
  from assms(4,5) have w: "0 \<le> nx g" by simp
  from assms(3) w have "0 \<le> i * nx g" by simp
  with assms(4) have "0 \<le> i * nx g + j" by simp
  moreover from c(1) w have "0 \<le> i' * nx g" by simp
  with c(3) have "0 \<le> i' * nx g + j'" by simp
  ultimately have "i * nx g + j = i' * nx g + j'"
    using e by simp
  from idx_inj [OF this assms(4,5)] c(3,4) assms(1) have "i = i'" "j = j'"
    by simp_all
  with c out show False by simp
qed

lemma inner_in_order:
  "inner ar (in_order g t) f fp g c step h =
     vc1_interior ar c g f fp h \<bind> inject_all ar g fp step"
  by (simp add: inner_def vc6_interior_def in_order_def vc1_interior_def for_loop_iter vc6_cell_eq)

section \<open>The injection of the sources\<close>

text \<open>
  An injection either fails or is one store into the slot of the source's cell;
  the injections of a list of sources fold over the sources on each cell.
\<close>

lemma inject_closed:
  "inject ar g fp t s h =
     (if inb (sources_x g) s \<and> inb (sources_y g) s \<and>
         inb (h (model_padded2_dt2 g)) (idx g (source_cell g s)) \<and>
         inb (h (sources g)) (s * source_len g + t) \<and> inb (h fp) (idx g (source_cell g s))
      then Some (h(fp := (h fp)[nat (idx g (source_cell g s)) :=
             fadd ar (h fp ! nat (idx g (source_cell g s)))
               (fmul ar (h (model_padded2_dt2 g) ! nat (idx g (source_cell g s)))
                  (h (sources g) ! nat (s * source_len g + t)))]))
      else None)"
  by (simp add: inject_def rd_inb load_inb store_def idx_def source_cell_def Let_def inb_def)

lemma injected_Nil [simp]: "injected ar g amps t m n [] v = v"
  by (simp add: injected_def)

lemma injected_Cons:
  "injected ar g amps t m n (s # ss) v =
     injected ar g amps t m n ss
       (if idx g (source_cell g s) = n then fadd ar v (fmul ar m (amps ! nat (s * source_len g + t)))
        else v)"
  by (simp add: injected_def)

lemma iter_inject_frame:
  "iter (inject ar g fp t) ss h = Some h' \<Longrightarrow>
     (\<forall>q. q \<noteq> fp \<longrightarrow> h' q = h q) \<and> length (h' fp) = length (h fp) \<and>
     (\<forall>n. n \<notin> (\<lambda>s. nat (idx g (source_cell g s))) ` set ss \<longrightarrow> h' fp ! n = h fp ! n)"
proof (induction ss arbitrary: h)
  case Nil
  then show ?case by simp
next
  case (Cons s ss)
  from Cons.prems obtain h1 where b: "inject ar g fp t s h = Some h1"
    and r: "iter (inject ar g fp t) ss h1 = Some h'"
    by (auto split: option.splits)
  from b have h1: "h1 = h(fp := (h fp)[nat (idx g (source_cell g s)) :=
             fadd ar (h fp ! nat (idx g (source_cell g s)))
               (fmul ar (h (model_padded2_dt2 g) ! nat (idx g (source_cell g s)))
                  (h (sources g) ! nat (s * source_len g + t)))])"
    by (simp add: inject_closed split: if_splits)
  from Cons.IH [OF r] show ?case
    unfolding h1 by auto
qed

lemma iter_inject_inb:
  "iter (inject ar g fp t) ss h = Some h' \<Longrightarrow> \<forall>s\<in>set ss. inb (h fp) (idx g (source_cell g s))"
proof (induction ss arbitrary: h)
  case Nil
  then show ?case by simp
next
  case (Cons s ss)
  from Cons.prems obtain h1 where b: "inject ar g fp t s h = Some h1"
    and r: "iter (inject ar g fp t) ss h1 = Some h'"
    by (auto split: option.splits)
  from b have k: "inb (h fp) (idx g (source_cell g s))" and l: "length (h1 fp) = length (h fp)"
    by (auto simp: inject_closed split: if_splits)
  from Cons.IH [OF r] l have "\<forall>s\<in>set ss. inb (h fp) (idx g (source_cell g s))"
    by (simp add: inb_def)
  with k show ?case by simp
qed

lemma iter_inject_acc:
  assumes "model_padded2_dt2 g \<noteq> fp" "sources g \<noteq> fp"
  shows "iter (inject ar g fp t) ss h = Some h' \<Longrightarrow> inb (h fp) n \<Longrightarrow>
     h' fp ! nat n =
       injected ar g (h (sources g)) t (h (model_padded2_dt2 g) ! nat n) n ss (h fp ! nat n)"
proof (induction ss arbitrary: h)
  case Nil
  then show ?case by simp
next
  case (Cons s ss)
  let ?k = "idx g (source_cell g s)"
  let ?v = "fadd ar (h fp ! nat ?k)
               (fmul ar (h (model_padded2_dt2 g) ! nat ?k) (h (sources g) ! nat (s * source_len g + t)))"
  let ?h1 = "h(fp := (h fp)[nat ?k := ?v])"
  have c: "inject ar g fp t s h = (if inb (sources_x g) s \<and> inb (sources_y g) s \<and>
         inb (h (model_padded2_dt2 g)) ?k \<and>
         inb (h (sources g)) (s * source_len g + t) \<and> inb (h fp) ?k then Some ?h1 else None)"
    by (rule inject_closed)
  from Cons.prems(1) have k: "inb (h fp) ?k" and r: "iter (inject ar g fp t) ss ?h1 = Some h'"
    by (simp_all add: c split: if_splits)
  from Cons.prems(2) have n1: "inb (?h1 fp) n"
    by (simp add: inb_def)
  have "h' fp ! nat n =
      injected ar g (?h1 (sources g)) t (?h1 (model_padded2_dt2 g) ! nat n) n ss (?h1 fp ! nat n)"
    using r n1 by (rule Cons.IH)
  also have "?h1 (sources g) = h (sources g)"
    using assms by simp
  also have "?h1 (model_padded2_dt2 g) = h (model_padded2_dt2 g)"
    using assms by simp
  also have "?h1 fp ! nat n = (if ?k = n then
       fadd ar (h fp ! nat n) (fmul ar (h (model_padded2_dt2 g) ! nat n) (h (sources g) ! nat (s * source_len g + t)))
     else h fp ! nat n)"
    using k Cons.prems(2) by (auto simp: inb_def nat_less_iff)
  finally show ?case
    by (simp only: injected_Cons)
qed

lemma inject_one:
  assumes "inject_all ar g fp t h1 = Some h2" "0 \<le> s" "s < num_sources g"
    and "sx = sources_x g ! nat s + 8" "sy = sources_y g ! nat s + 8"
  shows "\<exists>ha hb. for_loop 0 s (inject ar g fp t) h1 = Some ha \<and>
     inject ar g fp t s ha = Some hb \<and> for_loop 0 (s + 1) (inject ar g fp t) h1 = Some hb \<and>
     inb (ha fp) (sy * nx g + sx) \<and>
     hb = ha(fp := (ha fp)[nat (sy * nx g + sx) :=
            fadd ar (cell_at ha fp g sy sx)
              (fmul ar (cell_at ha (model_padded2_dt2 g) g sy sx)
                 (ha (sources g) ! nat (s * source_len g + t)))]) \<and>
     ((\<forall>r. 0 \<le> r \<and> r < s \<longrightarrow> idx g (source_cell g r) \<noteq> sy * nx g + sx) \<longrightarrow>
        cell_at ha fp g sy sx = cell_at h1 fp g sy sx) \<and>
     for_loop (s + 1) (num_sources g) (inject ar g fp t) hb = Some h2 \<and>
     ((\<forall>r. s < r \<and> r < num_sources g \<longrightarrow> idx g (source_cell g r) \<noteq> sy * nx g + sx) \<longrightarrow>
        cell_at h2 fp g sy sx = cell_at hb fp g sy sx)"
proof -
  have k: "idx g (source_cell g s) = sy * nx g + sx"
    by (simp add: idx_def source_cell_def assms(4,5))
  from for_loop_split [OF assms(1) [unfolded inject_all_def] assms(2,3)] obtain ha hb
    where ha: "for_loop 0 s (inject ar g fp t) h1 = Some ha"
      and b: "inject ar g fp t s ha = Some hb"
      and hb: "for_loop 0 (s + 1) (inject ar g fp t) h1 = Some hb"
      and tl: "for_loop (s + 1) (num_sources g) (inject ar g fp t) hb = Some h2"
    by blast
  from b have ok: "inb (ha fp) (sy * nx g + sx)"
    and e: "hb = ha(fp := (ha fp)[nat (sy * nx g + sx) :=
            fadd ar (cell_at ha fp g sy sx)
              (fmul ar (cell_at ha (model_padded2_dt2 g) g sy sx)
                 (ha (sources g) ! nat (s * source_len g + t)))])"
    by (simp_all add: inject_closed k cell_at_def split: if_splits)
  have fr: "cell_at ha fp g sy sx = cell_at h1 fp g sy sx"
    if ne: "\<forall>r. 0 \<le> r \<and> r < s \<longrightarrow> idx g (source_cell g r) \<noteq> sy * nx g + sx"
  proof -
    from ha have it: "iter (inject ar g fp t) [0..s - 1] h1 = Some ha"
      by (simp add: for_loop_iter)
    from iter_inject_frame [OF it] have l: "length (ha fp) = length (h1 fp)"
      by simp
    have "nat (sy * nx g + sx) \<notin> (\<lambda>s. nat (idx g (source_cell g s))) ` set [0..s - 1]"
    proof
      assume "nat (sy * nx g + sx) \<in> (\<lambda>s. nat (idx g (source_cell g s))) ` set [0..s - 1]"
      then obtain s' where s': "0 \<le> s'" "s' < s"
        and eq: "nat (sy * nx g + sx) = nat (idx g (source_cell g s'))"
        by auto
      from iter_inject_inb [OF it] s' have "0 \<le> idx g (source_cell g s')"
        by (simp add: inb_def)
      moreover from ok have "0 \<le> sy * nx g + sx"
        by (simp add: inb_def)
      ultimately have "idx g (source_cell g s') = sy * nx g + sx"
        using eq by simp
      with ne s' show False by blast
    qed
    with iter_inject_frame [OF it] show ?thesis
      by (simp add: cell_at_def)
  qed
  have fr2: "cell_at h2 fp g sy sx = cell_at hb fp g sy sx"
    if ne: "\<forall>r. s < r \<and> r < num_sources g \<longrightarrow> idx g (source_cell g r) \<noteq> sy * nx g + sx"
  proof -
    from tl have it: "iter (inject ar g fp t) [s + 1..num_sources g - 1] hb = Some h2"
      by (simp add: for_loop_iter)
    have "nat (sy * nx g + sx) \<notin> (\<lambda>s. nat (idx g (source_cell g s))) ` set [s + 1..num_sources g - 1]"
    proof
      assume "nat (sy * nx g + sx)
        \<in> (\<lambda>s. nat (idx g (source_cell g s))) ` set [s + 1..num_sources g - 1]"
      then obtain r where m: "r \<in> set [s + 1..num_sources g - 1]"
        and eq: "nat (sy * nx g + sx) = nat (idx g (source_cell g r))"
        by blast
      from m have r: "s < r" "r < num_sources g"
        by simp_all
      from iter_inject_inb [OF it] r have "0 \<le> idx g (source_cell g r)"
        by (simp add: inb_def)
      moreover from ok have "0 \<le> sy * nx g + sx"
        by (simp add: inb_def)
      ultimately have "idx g (source_cell g r) = sy * nx g + sx"
        using eq by simp
      with ne r show False by blast
    qed
    with iter_inject_frame [OF it] show ?thesis
      by (simp add: cell_at_def)
  qed
  from ha b hb ok e fr tl fr2 show ?thesis
    by blast
qed

lemma inject_sum:
  assumes "model_padded2_dt2 g \<noteq> fp" "sources g \<noteq> fp"
    and "inject_all ar g fp t h1 = Some h2" "inb (h1 fp) (i * nx g + j)"
  shows "cell_at h2 fp g i j =
     injected ar g (h1 (sources g)) t (cell_at h1 (model_padded2_dt2 g) g i j) (i * nx g + j)
       [0..num_sources g - 1] (cell_at h1 fp g i j)"
  using iter_inject_acc [OF assms(1,2) assms(3) [unfolded inject_all_def for_loop_iter] assms(4)]
  by (simp add: cell_at_def)

lemma sources_insideD:
  "sources_inside g \<Longrightarrow> \<forall>s. 0 \<le> s \<and> s < num_sources g \<longrightarrow>
       0 \<le> sources_x g ! nat s \<and> sources_x g ! nat s < nxi g \<and>
       0 \<le> sources_y g ! nat s \<and> sources_y g ! nat s < ny g - 16"
  by (simp add: sources_inside_def list_all_iff)

lemma source_in_region:
  assumes "0 \<le> sources_x g ! nat s" "sources_x g ! nat s < nxi g"
    and "0 \<le> sources_y g ! nat s" "sources_y g ! nat s < ny g - 16"
    and "set rows = {8..<ny g - 8}"
  shows "source_cell g s \<in> set (cells g rows)"
  using assms by (simp add: set_cells source_cell_def)

lemma pass_frame:
  assumes src: "\<forall>s. 0 \<le> s \<and> s < num_sources g \<longrightarrow>
       0 \<le> sources_x g ! nat s \<and> sources_x g ! nat s < nxi g \<and>
       0 \<le> sources_y g ! nat s \<and> sources_y g ! nat s < ny g - 16"
    and rows: "set rows = {8..<ny g - 8}"
    and run: "iter (\<lambda>(i, j). vc1_cell ar c g f fp i j) (cells g rows) h = Some h1"
    and inj: "inject_all ar g fp t h1 = Some h2"
  shows "(\<forall>q. q \<noteq> fp \<longrightarrow> h2 q = h q) \<and> length (h2 fp) = length (h fp) \<and>
     (\<forall>k. k \<notin> (\<lambda>x. nat (idx g x)) ` set (cells g rows) \<longrightarrow> h2 fp ! k = h fp ! k)"
proof -
  note f1 = iter_cells_frame [where body = "\<lambda>(i, j). vc1_cell ar c g f fp i j" and ar = ar and c = c,
      OF cell_step run]
  from inj have it: "iter (inject ar g fp t) [0..num_sources g - 1] h1 = Some h2"
    by (simp add: inject_all_def for_loop_iter)
  note f2 = iter_inject_frame [OF it]
  have sub: "(\<lambda>s. nat (idx g (source_cell g s))) ` set [0..num_sources g - 1]
      \<subseteq> (\<lambda>x. nat (idx g x)) ` set (cells g rows)"
  proof
    fix k
    assume "k \<in> (\<lambda>s. nat (idx g (source_cell g s))) ` set [0..num_sources g - 1]"
    then obtain s where s: "0 \<le> s" "s < num_sources g" and k: "k = nat (idx g (source_cell g s))"
      by auto
    from src s rows have "source_cell g s \<in> set (cells g rows)"
      by (intro source_in_region) simp_all
    with k show "k \<in> (\<lambda>x. nat (idx g x)) ` set (cells g rows)"
      by blast
  qed
  have "h2 fp ! k = h fp ! k" if "k \<notin> (\<lambda>x. nat (idx g x)) ` set (cells g rows)" for k
  proof -
    from that sub have "k \<notin> (\<lambda>s. nat (idx g (source_cell g s))) ` set [0..num_sources g - 1]"
      by blast
    with f2 have "h2 fp ! k = h1 fp ! k" by blast
    also from that f1 have "\<dots> = h fp ! k" by blast
    finally show ?thesis .
  qed
  moreover from f1 f2 have "\<forall>q. q \<noteq> fp \<longrightarrow> h2 q = h q" by simp
  moreover from f1 f2 have "length (h2 fp) = length (h fp)" by simp
  ultimately show ?thesis by blast
qed

section \<open>The time loop\<close>

text \<open>
  A pass exchanges the two pointers; it stores into its \<^verbatim>\<open>fp\<close> only, at the slots of
  the interior; for distinct arrays the parallel pass is the sequential pass.
\<close>

lemma iter_swap_parity:
  assumes "\<And>t h f fp s'. body t (h, f, fp) = Some s' \<Longrightarrow> fst (snd s') = fp \<and> snd (snd s') = f"
  shows "iter body ts (h, f, fp) = Some (h', f', fp') \<Longrightarrow>
     f' = (if even (length ts) then f else fp) \<and> fp' = (if even (length ts) then fp else f)"
proof (induction ts arbitrary: h f fp)
  case Nil
  then show ?case by simp
next
  case (Cons t ts)
  from Cons.prems obtain h1 f1 fp1 where b: "body t (h, f, fp) = Some (h1, f1, fp1)"
    and r: "iter body ts (h1, f1, fp1) = Some (h', f', fp')"
    by (auto split: option.splits)
  from assms [OF b] have "f1 = fp" "fp1 = f" by simp_all
  with Cons.IH [OF r] show ?case by auto
qed

lemma for_loop_swap_parity:
  assumes "\<And>t h f fp s'. body t (h, f, fp) = Some s' \<Longrightarrow> fst (snd s') = fp \<and> snd (snd s') = f"
    and "0 \<le> n" "for_loop 0 n body (h, f, fp) = Some (h', f', fp')"
  shows "f' = (if even n then f else fp) \<and> fp' = (if even n then fp else f)"
proof -
  from assms(2) have "length [0..n - 1] = nat n" by simp
  moreover from assms(2) have "even (nat n) = even n"
    by (simp add: even_nat_iff)
  ultimately show ?thesis
    using iter_swap_parity [of body "[0..n - 1]" h f fp h' f' fp', OF assms(1)] assms(3)
    by (simp add: for_loop_iter)
qed

lemma vc1_body_ptrs:
  "vc1_body ar c g t (h, f, fp) = Some s' \<Longrightarrow> fst (snd s') = fp \<and> snd (snd s') = f"
  by (auto split: Option.bind_splits)

lemma vc6_body_ptrs:
  "vc6_body ar sched c g t (h, f, fp) = Some s' \<Longrightarrow> fst (snd s') = fp \<and> snd (snd s') = f"
  by (auto split: Option.bind_splits)

lemma vc1_step_ptrs:
  assumes "0 \<le> t" "vc1_step ar g dx t (h0, f, fp) = Some (h, cur, prev)"
  shows "cur = f \<and> prev = fp \<or> cur = fp \<and> prev = f"
proof -
  from assms(2) have "for_loop 0 t (vc1_body ar (fd_coeff ar dx) g) (h0, f, fp) = Some (h, cur, prev)"
    by (simp add: vc1_step_def)
  from for_loop_swap_parity [OF vc1_body_ptrs assms(1) this] show ?thesis
    by (simp split: if_splits)
qed

lemma vc6_step_ptrs:
  assumes "0 \<le> t" "vc6_step ar sched g dx t (h0, f, fp) = Some (h, cur, prev)"
  shows "cur = f \<and> prev = fp \<or> cur = fp \<and> prev = f"
proof -
  from assms(2) have "for_loop 0 t (vc6_body ar sched (fd_coeff ar dx) g) (h0, f, fp) = Some (h, cur, prev)"
    by (simp add: vc6_step_def)
  from for_loop_swap_parity [OF vc6_body_ptrs assms(1) this] show ?thesis
    by (simp split: if_splits)
qed

lemma vc1_pass:
  assumes "vc1_step ar g dx n s = Some s'" "0 \<le> t" "t < n"
  shows "\<exists>h cur prev h1 h2. vc1_step ar g dx t s = Some (h, cur, prev) \<and>
     vc1_interior ar (fd_coeff ar dx) g cur prev h = Some h1 \<and>
     inject_all ar g prev t h1 = Some h2 \<and>
     vc1_step ar g dx (t + 1) s = Some (h2, prev, cur)"
proof -
  from for_loop_prefix [OF assms [unfolded vc1_step_def]] obtain st st'
    where st: "vc1_step ar g dx t s = Some st"
      and b: "vc1_body ar (fd_coeff ar dx) g t st = Some st'"
      and n: "vc1_step ar g dx (t + 1) s = Some st'"
    unfolding vc1_step_def by blast
  obtain h cur prev where e: "st = (h, cur, prev)"
    by (cases st) auto
  from b obtain h1 h2 where "vc1_interior ar (fd_coeff ar dx) g cur prev h = Some h1"
    "inject_all ar g prev t h1 = Some h2" "st' = (h2, prev, cur)"
    unfolding e by (auto split: Option.bind_splits)
  with st n e show ?thesis by blast
qed

lemma vc6_pass:
  assumes "vc6_step ar sched g dx n s = Some s'" "0 \<le> t" "t < n"
  shows "\<exists>h cur prev h1 h2. vc6_step ar sched g dx t s = Some (h, cur, prev) \<and>
     vc6_interior ar (sched t) (fd_coeff ar dx) g cur prev h = Some h1 \<and>
     inject_all ar g prev t h1 = Some h2 \<and>
     vc6_step ar sched g dx (t + 1) s = Some (h2, prev, cur)"
proof -
  from for_loop_prefix [OF assms [unfolded vc6_step_def]] obtain st st'
    where st: "vc6_step ar sched g dx t s = Some st"
      and b: "vc6_body ar sched (fd_coeff ar dx) g t st = Some st'"
      and n: "vc6_step ar sched g dx (t + 1) s = Some st'"
    unfolding vc6_step_def by blast
  obtain h cur prev where e: "st = (h, cur, prev)"
    by (cases st) auto
  from b obtain h1 h2 where "vc6_interior ar (sched t) (fd_coeff ar dx) g cur prev h = Some h1"
    "inject_all ar g prev t h1 = Some h2" "st' = (h2, prev, cur)"
    unfolding e by (auto simp: inner_def split: Option.bind_splits)
  with st n e show ?thesis by blast
qed

lemma run_frame:
  assumes pass: "\<And>t h0 cur prev s'. body t (h0, cur, prev) = Some s' \<Longrightarrow>
       \<exists>h2. s' = (h2, prev, cur) \<and> (\<forall>q. q \<noteq> prev \<longrightarrow> h2 q = h0 q) \<and>
         length (h2 prev) = length (h0 prev) \<and> (\<forall>k. k \<notin> R \<longrightarrow> h2 prev ! k = h0 prev ! k)"
    and run: "for_loop 0 n body (h, f, fp) = Some (h', f', fp')"
  shows "(\<forall>q. q \<noteq> f \<and> q \<noteq> fp \<longrightarrow> h' q = h q) \<and>
     length (h' f) = length (h f) \<and> length (h' fp) = length (h fp) \<and>
     (\<forall>k. k \<notin> R \<longrightarrow> h' f ! k = h f ! k \<and> h' fp ! k = h fp ! k)"
proof -
  let ?I = "\<lambda>s. case s of (h1, cur, prev) \<Rightarrow>
     (cur = f \<and> prev = fp \<or> cur = fp \<and> prev = f) \<and>
     (\<forall>q. q \<noteq> f \<and> q \<noteq> fp \<longrightarrow> h1 q = h q) \<and>
     length (h1 f) = length (h f) \<and> length (h1 fp) = length (h fp) \<and>
     (\<forall>k. k \<notin> R \<longrightarrow> h1 f ! k = h f ! k \<and> h1 fp ! k = h fp ! k)"
  have keep: "?I s'" if i: "?I s" and b: "body t s = Some s'" for t s s'
  proof -
    obtain h0 cur prev where e: "s = (h0, cur, prev)" by (cases s) auto
    from pass [OF b [unfolded e]] obtain h2 where s': "s' = (h2, prev, cur)"
      and o: "\<forall>q. q \<noteq> prev \<longrightarrow> h2 q = h0 q"
      and l: "length (h2 prev) = length (h0 prev)"
      and k: "\<forall>k. k \<notin> R \<longrightarrow> h2 prev ! k = h0 prev ! k"
      by blast
    from i have p: "cur = f \<and> prev = fp \<or> cur = fp \<and> prev = f"
      and i1: "\<forall>q. q \<noteq> f \<and> q \<noteq> fp \<longrightarrow> h0 q = h q"
      and i2: "length (h0 f) = length (h f)" "length (h0 fp) = length (h fp)"
      and i3: "\<forall>k. k \<notin> R \<longrightarrow> h0 f ! k = h f ! k \<and> h0 fp ! k = h fp ! k"
      unfolding e by simp_all
    have a: "h2 q = h q" if "q \<noteq> f" "q \<noteq> fp" for q
      using that p o i1 by metis
    have b: "length (h2 q) = length (h q)" if "q = f \<or> q = fp" for q
      using that p o l i2 by metis
    have c: "h2 q ! k = h q ! k" if "q = f \<or> q = fp" "k \<notin> R" for q k
      using that p o k i3 by metis
    from p a b c show ?thesis
      unfolding s' by auto
  qed
  have "?I (h, f, fp)" by simp
  from iter_inv [of ?I body, OF keep run [unfolded for_loop_iter] this]
  show ?thesis by simp
qed

lemma vc1_body_frame:
  assumes src: "\<forall>s. 0 \<le> s \<and> s < num_sources g \<longrightarrow>
       0 \<le> sources_x g ! nat s \<and> sources_x g ! nat s < nxi g \<and>
       0 \<le> sources_y g ! nat s \<and> sources_y g ! nat s < ny g - 16"
    and b: "vc1_body ar c g t (h0, cur, prev) = Some s'"
  shows "\<exists>h2. s' = (h2, prev, cur) \<and> (\<forall>q. q \<noteq> prev \<longrightarrow> h2 q = h0 q) \<and>
     length (h2 prev) = length (h0 prev) \<and>
     (\<forall>k. k \<notin> (\<lambda>x. nat (idx g x)) ` set (cells g [8..ny g - 9]) \<longrightarrow> h2 prev ! k = h0 prev ! k)"
proof -
  from b obtain h1 h2 where i1: "vc1_interior ar c g cur prev h0 = Some h1"
    and inj: "inject_all ar g prev t h1 = Some h2" and s': "s' = (h2, prev, cur)"
    by (auto split: Option.bind_splits)
  from pass_frame [OF src rows_in_order i1 [unfolded vc1_interior_cells] inj] s'
  show ?thesis by blast
qed

lemma vc6_body_frame:
  assumes src: "\<forall>s. 0 \<le> s \<and> s < num_sources g \<longrightarrow>
       0 \<le> sources_x g ! nat s \<and> sources_x g ! nat s < nxi g \<and>
       0 \<le> sources_y g ! nat s \<and> sources_y g ! nat s < ny g - 16"
    and sc: "schedule g sched"
    and b: "vc6_body ar sched c g t (h0, cur, prev) = Some s'"
  shows "\<exists>h2. s' = (h2, prev, cur) \<and> (\<forall>q. q \<noteq> prev \<longrightarrow> h2 q = h0 q) \<and>
     length (h2 prev) = length (h0 prev) \<and>
     (\<forall>k. k \<notin> (\<lambda>x. nat (idx g x)) ` set (cells g [8..ny g - 9]) \<longrightarrow> h2 prev ! k = h0 prev ! k)"
proof -
  from sc have rows: "set (sched t) = {8..<ny g - 8}"
    by (simp add: schedule_def)
  from b obtain h1 h2 where i1: "vc6_interior ar (sched t) c g cur prev h0 = Some h1"
    and inj: "inject_all ar g prev t h1 = Some h2" and s': "s' = (h2, prev, cur)"
    by (auto simp: inner_def split: Option.bind_splits)
  from pass_frame [OF src rows i1 [unfolded vc6_interior_cells] inj] s'
  show ?thesis
    unfolding cells_any_order [OF rows] by blast
qed

lemma vc6_step_any_order:
  assumes "schedule g sched" "f \<noteq> fp" "model_padded2_dt2 g \<noteq> f" "model_padded2_dt2 g \<noteq> fp"
    and "nxi g + 8 \<le> nx g"
  shows "vc6_step ar sched g dx n (h, f, fp) = vc1_step ar g dx n (h, f, fp)"
proof -
  let ?I = "\<lambda>s. case s of (h, cur, prev) \<Rightarrow> cur = f \<and> prev = fp \<or> cur = fp \<and> prev = f"
  have keep: "?I s'" if "?I s" "vc1_body ar (fd_coeff ar dx) g t s = Some s'" for t s s'
  proof -
    obtain h cur prev where e: "s = (h, cur, prev)" by (cases s) auto
    from that(2) vc1_body_ptrs [of ar "fd_coeff ar dx" g t h cur prev s']
    have "fst (snd s') = prev" "snd (snd s') = cur"
      unfolding e by simp_all
    with that(1) show ?thesis
      unfolding e by (cases s') auto
  qed
  have same: "vc6_body ar sched (fd_coeff ar dx) g t s = vc1_body ar (fd_coeff ar dx) g t s"
    if "?I s" for t s
  proof -
    obtain h cur prev where e: "s = (h, cur, prev)" by (cases s) auto
    from that assms(2-4) have p: "cur \<noteq> prev" "model_padded2_dt2 g \<noteq> prev"
      unfolding e by auto
    from assms(1) have sc: "distinct (sched t)" "set (sched t) = {8..<ny g - 8}"
      by (simp_all add: schedule_def)
    show ?thesis
      unfolding e by (simp add: inner_def vc6_interior_any_order [OF p assms(5) sc])
  qed
  have "?I (h, f, fp)" by simp
  from iter_cong_inv [of ?I "vc1_body ar (fd_coeff ar dx) g" "vc6_body ar sched (fd_coeff ar dx) g",
      OF keep same this]
  show ?thesis
    by (simp add: vc6_step_def vc1_step_def for_loop_iter)
qed

section \<open>A well-formed call is defined\<close>

text \<open>
  In a well-formed call every access of the loops is inside its array, and a pass
  keeps the lengths of the arrays, so that the run returns.
\<close>

lemma idx_bound:
  assumes "0 \<le> a" "a < m" "0 \<le> b" "b < w" "m * w \<le> l"
  shows "0 \<le> a * w + b \<and> a * w + b < (l :: int)"
proof -
  from assms(3,4) have w: "0 \<le> w" by simp
  with assms(1) have "0 \<le> a * w" by simp
  with assms(3) have lo: "0 \<le> a * w + b" by simp
  from assms(2) have "a + 1 \<le> m" by simp
  then have "(a + 1) * w \<le> m * w"
    using w by (rule mult_right_mono)
  then have "a * w + w \<le> m * w"
    by (simp add: algebra_simps)
  with assms(4,5) have "a * w + b < l" by simp
  with lo show ?thesis by simp
qed

lemma inb_cell:
  assumes "0 \<le> a" "a < ny g" "0 \<le> b" "b < nx g" "ny g * nx g \<le> int (length xs)"
  shows "inb xs (a * nx g + b)"
  using idx_bound [OF assms] by (simp add: inb_def)

lemma tap_ok_region:
  assumes "8 \<le> i" "i < ny g - 8" "8 \<le> j" "j < nxi g + 8" "nxi g + 16 \<le> nx g"
    and "ny g * nx g \<le> int (length xs)" "1 \<le> k" "k \<le> 8"
  shows "tap_ok g xs i j k"
proof -
  have "inb xs (i * nx g + (j + k))"
    using assms by (intro inb_cell) simp_all
  moreover have "inb xs (i * nx g + (j - k))"
    using assms by (intro inb_cell) simp_all
  moreover have "inb xs ((i + k) * nx g + j)"
    using assms by (intro inb_cell) simp_all
  moreover have "inb xs ((i - k) * nx g + j)"
    using assms by (intro inb_cell) simp_all
  ultimately show ?thesis
    by (simp add: tap_ok_def add.assoc diff_conv_add_uminus del: add_uminus_conv_diff)
qed

lemma cell_ok_region:
  assumes "8 \<le> i" "i < ny g - 8" "8 \<le> j" "j < nxi g + 8" "nxi g + 16 \<le> nx g"
    and "ny g * nx g \<le> int (length (h f))" "ny g * nx g \<le> int (length (h fp))"
    and "ny g * nx g \<le> int (length (h (model_padded2_dt2 g)))"
  shows "cell_ok g h f fp (i, j)"
proof -
  have c: "inb xs (i * nx g + j)" if "ny g * nx g \<le> int (length xs)" for xs :: "'a list"
    using assms(1-5) that by (intro inb_cell) simp_all
  have "tap_ok g (h f) i j k" if "1 \<le> k" "k \<le> 8" for k
    using assms(1-6) that by (rule tap_ok_region)
  then have "list_all (tap_ok g (h f) i j) [1, 2, 3, 4, 5, 6, 7, 8]"
    by simp
  with c assms(6-8) show ?thesis
    by (simp add: cell_ok_def)
qed

lemma iter_defined:
  assumes "\<And>x s. x \<in> set xs \<Longrightarrow> I s \<Longrightarrow> \<exists>s'. body x s = Some s' \<and> I s'"
  shows "I s \<Longrightarrow> \<exists>s'. iter body xs s = Some s' \<and> I s'"
  using assms
proof (induction xs arbitrary: s)
  case Nil
  then show ?case by simp
next
  case (Cons x xs)
  from Cons.prems(2) [of x s] Cons.prems(1) obtain s1 where b: "body x s = Some s1" and i: "I s1"
    by auto
  have "\<exists>s'. iter body xs s1 = Some s' \<and> I s'"
    using i Cons.prems(2) by (intro Cons.IH) auto
  with b show ?case by simp
qed

lemma well_formed_lengths:
  assumes "\<forall>q. length (h' q) = length (h q)" "well_formed g h f fp n"
  shows "well_formed g h' f fp n"
  using assms by (simp add: well_formed_def)

lemma well_formed_swap: "well_formed g h fp f n = well_formed g h f fp n"
  by (auto simp: well_formed_def)

lemma interior_defined:
  assumes wf: "well_formed g h f fp n" and rows: "set rows = {8..<ny g - 8}"
  shows "\<exists>h1. iter (\<lambda>(i, j). vc1_cell ar c g f fp i j) (cells g rows) h = Some h1 \<and>
           (\<forall>q. length (h1 q) = length (h q))"
proof -
  have "\<forall>x\<in>set (cells g rows). cell_ok g h f fp x"
  proof
    fix x
    assume x: "x \<in> set (cells g rows)"
    obtain i j where e: "x = (i, j)" by (cases x)
    from x rows have "8 \<le> i" "i < ny g - 8" "8 \<le> j" "j < nxi g + 8"
      by (simp_all add: e set_cells)
    with wf show "cell_ok g h f fp x"
      unfolding e by (intro cell_ok_region) (simp_all add: well_formed_def)
  qed
  with iter_cells_defined [where body = "\<lambda>(i, j). vc1_cell ar c g f fp i j" and ar = ar and c = c
      and cs = "cells g rows" and h = h, OF cell_step]
  obtain h1 where r: "iter (\<lambda>(i, j). vc1_cell ar c g f fp i j) (cells g rows) h = Some h1"
    by blast
  from iter_cells_frame [where body = "\<lambda>(i, j). vc1_cell ar c g f fp i j" and ar = ar and c = c,
      OF cell_step r]
  have "length (h1 q) = length (h q)" for q
    by (cases "q = fp") simp_all
  with r show ?thesis by blast
qed

lemma inject_defined:
  assumes wf: "well_formed g h f fp n" and s: "0 \<le> s" "s < num_sources g"
    and t: "0 \<le> t" "t < n"
  shows "\<exists>h'. inject ar g fp t s h = Some h' \<and> (\<forall>q. length (h' q) = length (h q))"
proof -
  from wf have si: "sources_inside g" by (simp add: well_formed_def)
  from sources_insideD [OF si] s
  have x: "0 \<le> sources_x g ! nat s" "sources_x g ! nat s < nxi g"
    and y: "0 \<le> sources_y g ! nat s" "sources_y g ! nat s < ny g - 16"
    by simp_all
  have k: "idx g (source_cell g s) = (sources_y g ! nat s + 8) * nx g + (sources_x g ! nat s + 8)"
    by (simp add: idx_def source_cell_def)
  have c: "inb xs (idx g (source_cell g s))" if "ny g * nx g \<le> int (length xs)" for xs :: "'a list"
    unfolding k using x y wf that by (intro inb_cell) (simp_all add: well_formed_def)
  from wf t have "t < source_len g" by (simp add: well_formed_def)
  with wf s t have a: "inb (h (sources g)) (s * source_len g + t)"
    using idx_bound [of s "num_sources g" t "source_len g" "int (length (h (sources g)))"]
    by (simp add: inb_def well_formed_def)
  from wf s have r: "inb (sources_x g) s" "inb (sources_y g) s"
    by (simp_all add: inb_def well_formed_def)
  from wf c a r show ?thesis
    by (simp add: inject_closed well_formed_def)
qed

lemma inject_all_defined:
  assumes wf: "well_formed g h f fp n" and t: "0 \<le> t" "t < n"
  shows "\<exists>h'. inject_all ar g fp t h = Some h' \<and> (\<forall>q. length (h' q) = length (h q))"
proof -
  define I where "I = (\<lambda>h' :: 'a mem. \<forall>q. length (h' q) = length (h q))"
  have "\<exists>s'. iter (inject ar g fp t) [0..num_sources g - 1] h = Some s' \<and> I s'"
  proof (rule iter_defined)
    show "I h" by (simp add: I_def)
  next
    fix s h1
    assume m: "s \<in> set [0..num_sources g - 1]" and i: "I h1"
    from m have s: "0 \<le> s" "s < num_sources g" by simp_all
    from i have l: "\<forall>q. length (h1 q) = length (h q)" by (simp add: I_def)
    from l wf have "well_formed g h1 f fp n"
      by (rule well_formed_lengths)
    from inject_defined [OF this s t] obtain h'
      where b: "inject ar g fp t s h1 = Some h'" and l': "\<forall>q. length (h' q) = length (h1 q)"
      by blast
    from l l' have "I h'" by (simp add: I_def)
    with b show "\<exists>s'. inject ar g fp t s h1 = Some s' \<and> I s'" by blast
  qed
  then show ?thesis
    by (simp add: inject_all_def for_loop_iter I_def)
qed

lemma vc1_body_defined:
  assumes wf: "well_formed g h f fp n" and t: "0 \<le> t" "t < n"
  shows "\<exists>h2. vc1_body ar c g t (h, f, fp) = Some (h2, fp, f) \<and>
           (\<forall>q. length (h2 q) = length (h q))"
proof -
  from interior_defined [OF wf rows_in_order, of ar c] obtain h1
    where i1: "vc1_interior ar c g f fp h = Some h1" and l1: "\<forall>q. length (h1 q) = length (h q)"
    unfolding vc1_interior_cells by blast
  from l1 wf have "well_formed g h1 f fp n"
    by (rule well_formed_lengths)
  from inject_all_defined [OF this t, of ar] obtain h2
    where i2: "inject_all ar g fp t h1 = Some h2" and l2: "\<forall>q. length (h2 q) = length (h1 q)"
    by blast
  from i1 i2 l1 l2 show ?thesis by simp
qed

lemma vc6_body_defined:
  assumes wf: "well_formed g h f fp n" and t: "0 \<le> t" "t < n" and sc: "schedule g sched"
  shows "\<exists>h2. vc6_body ar sched c g t (h, f, fp) = Some (h2, fp, f) \<and>
           (\<forall>q. length (h2 q) = length (h q))"
proof -
  from sc have rows: "set (sched t) = {8..<ny g - 8}"
    by (simp add: schedule_def)
  from interior_defined [OF wf rows, of ar c] obtain h1
    where i1: "vc6_interior ar (sched t) c g f fp h = Some h1"
      and l1: "\<forall>q. length (h1 q) = length (h q)"
    unfolding vc6_interior_cells by blast
  from l1 wf have "well_formed g h1 f fp n"
    by (rule well_formed_lengths)
  from inject_all_defined [OF this t, of ar] obtain h2
    where i2: "inject_all ar g fp t h1 = Some h2" and l2: "\<forall>q. length (h2 q) = length (h1 q)"
    by blast
  from i1 i2 l1 l2 show ?thesis by (simp add: inner_def)
qed

lemma run_defined:
  assumes body: "\<And>t h f fp. well_formed g h f fp n \<Longrightarrow> 0 \<le> t \<Longrightarrow> t < n \<Longrightarrow>
       \<exists>h2. body t (h, f, fp) = Some (h2, fp, f) \<and> (\<forall>q. length (h2 q) = length (h q))"
    and wf: "well_formed g h f fp n"
  shows "\<exists>s'. for_loop 0 n body (h, f, fp) = Some s'"
proof -
  define I where "I = (\<lambda>s :: 'a state. case s of (h, f, fp) \<Rightarrow> well_formed g h f fp n)"
  have "\<exists>s'. iter body [0..n - 1] (h, f, fp) = Some s' \<and> I s'"
  proof (rule iter_defined)
    show "I (h, f, fp)" using wf by (simp add: I_def)
  next
    fix t s
    assume m: "t \<in> set [0..n - 1]" and i: "I s"
    obtain h1 cur prev where e: "s = (h1, cur, prev)" by (cases s) auto
    from m have t: "0 \<le> t" "t < n" by simp_all
    from i have w: "well_formed g h1 cur prev n" by (simp add: I_def e)
    from body [OF w t] obtain h2 where b: "body t (h1, cur, prev) = Some (h2, prev, cur)"
      and l: "\<forall>q. length (h2 q) = length (h1 q)"
      by blast
    from l w have "well_formed g h2 cur prev n"
      by (rule well_formed_lengths)
    then have "I (h2, prev, cur)"
      by (simp add: I_def well_formed_swap)
    with b show "\<exists>s'. body t s = Some s' \<and> I s'"
      unfolding e by blast
  qed
  then show ?thesis
    by (auto simp: for_loop_iter)
qed

lemma vc1_step_defined:
  "well_formed g h f fp n \<Longrightarrow> \<exists>s'. vc1_step ar g dx n (h, f, fp) = Some s'"
  unfolding vc1_step_def by (rule run_defined [OF vc1_body_defined])

lemma vc6_step_defined:
  "well_formed g h f fp n \<Longrightarrow> schedule g sched \<Longrightarrow>
     \<exists>s'. vc6_step ar sched g dx n (h, f, fp) = Some s'"
  unfolding vc6_step_def by (rule run_defined [OF vc6_body_defined])

text \<open>
  The values that the index computations of a well-formed call take, steps in
  between included, are values of a 32-bit \<^verbatim>\<open>int\<close>.
\<close>

lemma le_prod:
  assumes "1 \<le> a" "1 \<le> b"
  shows "a \<le> a * b \<and> b \<le> a * (b :: int)"
proof -
  from assms have "a * 1 \<le> a * b"
    by (intro mult_left_mono) simp_all
  moreover from assms have "1 * b \<le> a * b"
    by (intro mult_right_mono) simp_all
  ultimately show ?thesis by simp
qed

lemma int_ok_cell:
  assumes "0 \<le> a" "a < ny g" "0 \<le> b" "b < nx g" "ny g * nx g \<le> 2147483647"
  shows "int_ok (a * nx g) \<and> int_ok (a * nx g + b)"
proof -
  from assms(3,4) have w: "0 \<le> nx g" by simp
  with assms(1) have "0 \<le> a * nx g" by simp
  moreover from idx_bound [OF assms(1-4), of "ny g * nx g"]
  have "0 \<le> a * nx g + b" "a * nx g + b < ny g * nx g"
    by simp_all
  ultimately show ?thesis
    using assms(3,5) by (simp add: int_ok_def)
qed

lemma stencil_indices_int:
  assumes wf: "well_formed g h f fp n"
    and c: "8 \<le> i" "i < ny g - 8" "8 \<le> j" "j < nxi g + 8" and k: "1 \<le> k" "k \<le> 8"
  shows "list_all int_ok
     [ny g - 8, nxi g + 8, i + 1, j + 1, i * nx g, i * nx g + j, i * nx g + j + k, i * nx g + j - k,
      i + k, (i + k) * nx g, (i + k) * nx g + j, i - k, (i - k) * nx g, (i - k) * nx g + j]"
proof -
  from wf have l: "nxi g + 16 \<le> nx g" and m: "ny g * nx g \<le> 2147483647"
    by (simp_all add: well_formed_def)
  have a: "int_ok (a * nx g) \<and> int_ok (a * nx g + b)"
    if "0 \<le> a" "a < ny g" "0 \<le> b" "b < nx g" for a b
    using that m by (rule int_ok_cell)
  from c l have w: "17 \<le> nx g" "17 \<le> ny g" by simp_all
  from w have "1 \<le> ny g" "1 \<le> nx g" by simp_all
  from le_prod [OF this] have "ny g \<le> ny g * nx g" "nx g \<le> ny g * nx g"
    by blast+
  with m have "ny g \<le> 2147483647" "nx g \<le> 2147483647"
    by linarith+
  with c k l have small: "int_ok (ny g - 8)" "int_ok (nxi g + 8)" "int_ok (i + 1)" "int_ok (j + 1)"
    "int_ok (i + k)" "int_ok (i - k)"
    by (simp_all add: int_ok_def)
  from a [of i j] a [of i "j + k"] a [of i "j - k"] a [of "i + k" j] a [of "i - k" j] c k l
  have "int_ok (i * nx g)" "int_ok (i * nx g + j)" "int_ok (i * nx g + (j + k))"
    "int_ok (i * nx g + (j - k))" "int_ok ((i + k) * nx g)" "int_ok ((i + k) * nx g + j)"
    "int_ok ((i - k) * nx g)" "int_ok ((i - k) * nx g + j)"
    by simp_all
  with small show ?thesis
    by (simp add: add.assoc diff_conv_add_uminus del: add_uminus_conv_diff)
qed

lemma source_indices_int:
  assumes wf: "well_formed g h f fp n" and s: "0 \<le> s" "s < num_sources g"
    and t: "0 \<le> t" "t < n"
  shows "list_all int_ok
     [s + 1, t + 1, sources_x g ! nat s + 8, sources_y g ! nat s + 8,
      (sources_y g ! nat s + 8) * nx g,
      (sources_y g ! nat s + 8) * nx g + (sources_x g ! nat s + 8),
      s * source_len g, s * source_len g + t]"
proof -
  from wf have l: "nxi g + 16 \<le> nx g" and m: "ny g * nx g \<le> 2147483647"
    and si: "sources_inside g" and q: "num_sources g * source_len g \<le> 2147483647"
    and tl: "n \<le> source_len g"
    by (simp_all add: well_formed_def)
  from sources_insideD [OF si] s
  have x: "0 \<le> sources_x g ! nat s" "sources_x g ! nat s < nxi g"
    and y: "0 \<le> sources_y g ! nat s" "sources_y g ! nat s < ny g - 16"
    by simp_all
  from int_ok_cell [of "sources_y g ! nat s + 8" g "sources_x g ! nat s + 8"] x y l m
  have c: "int_ok ((sources_y g ! nat s + 8) * nx g)"
    "int_ok ((sources_y g ! nat s + 8) * nx g + (sources_x g ! nat s + 8))"
    by simp_all
  from x y l have w: "17 \<le> nx g" "17 \<le> ny g" by simp_all
  from w have "1 \<le> ny g" "1 \<le> nx g" by simp_all
  from le_prod [OF this] have "ny g \<le> ny g * nx g" "nx g \<le> ny g * nx g"
    by blast+
  with m have "ny g \<le> 2147483647" "nx g \<le> 2147483647"
    by linarith+
  with x y l have p: "int_ok (sources_x g ! nat s + 8)" "int_ok (sources_y g ! nat s + 8)"
    by (simp_all add: int_ok_def)
  from t tl have t': "t < source_len g" by simp
  from s t t' have "0 \<le> s * source_len g" by simp
  moreover from idx_bound [OF s t(1) t' order_refl]
  have "0 \<le> s * source_len g + t" "s * source_len g + t < num_sources g * source_len g"
    by simp_all
  ultimately have a: "int_ok (s * source_len g)" "int_ok (s * source_len g + t)"
    using q t by (simp_all add: int_ok_def)
  from s t t' have "1 \<le> num_sources g" "1 \<le> source_len g" by simp_all
  from le_prod [OF this] have "num_sources g \<le> num_sources g * source_len g"
    "source_len g \<le> num_sources g * source_len g"
    by blast+
  with s t' q have "s + 1 \<le> 2147483647 \<and> t + 1 \<le> 2147483647"
    by linarith
  with s t c p a show ?thesis
    by (simp add: int_ok_def)
qed

section \<open>The coefficients in exact arithmetic\<close>

lemma exact_simps [simp]:
  "fadd exact = plus" "fsub exact = minus" "fmul exact = times" "fdiv exact = divide" "flit exact = of_int"
  by (simp_all add: exact_def)

lemma laplacian_const:
  "laplacian exact c (\<lambda>i j. v) i j = v * (2 * (c ! 0) + 4 * sum_list (tl (take 9 c)))" if "length c = 9"
proof -
  from that obtain c0 c1 c2 c3 c4 c5 c6 c7 c8 where "c = [c0, c1, c2, c3, c4, c5, c6, c7, c8]"
    by (auto simp: length_Suc_conv eval_nat_numeral)
  then show ?thesis
    by (simp add: laplacian_unfold nbrs_def algebra_simps)
qed

lemma laplacian_on_constant:
  assumes "inb (replicate m v) (i * nx g + j)"
    and "list_all (tap_ok g (replicate m v) i j) [1, 2, 3, 4, 5, 6, 7, 8]"
  shows "laplacian ar c (cell_at (h(f := replicate m v)) f g) i j = laplacian ar c (\<lambda>i j. v) i j"
  using assms
  by (simp add: laplacian_unfold nbrs_def cell_at_def tap_ok_def inb_def nat_less_iff algebra_simps)

lemma f_xx_on_constant:
  assumes "vc1_f_xx exact (fd_coeff exact dx) g (h(f := replicate m v)) f i j = Some r"
  shows "r = v * (2 * (fd_coeff exact dx ! 0) + 4 * sum_list (tl (fd_coeff exact dx)))"
proof -
  have l: "length (fd_coeff exact dx) = 9"
    by (simp add: fd_coeff_def)
  from assms have ok: "inb (replicate m v) (i * nx g + j)"
    "list_all (tap_ok g (replicate m v) i j) [1, 2, 3, 4, 5, 6, 7, 8]"
    and r: "r = laplacian exact (fd_coeff exact dx) (cell_at (h(f := replicate m v)) f g) i j"
    by (simp_all add: vc6_f_xx_eq [symmetric] vc6_f_xx_closed split: if_splits)
  show ?thesis
    unfolding r laplacian_on_constant [OF ok] using l by (simp add: laplacian_const)
qed

lemma coeff_sum_zero:
  "dx \<noteq> 0 \<Longrightarrow> 2 * (fd_coeff exact dx ! 0) + 4 * sum_list (tl (fd_coeff exact dx)) = 0"
  by (simp add: fd_coeff_def field_simps)

lemma coeff_centre_negative: "dx \<noteq> 0 \<Longrightarrow> fd_coeff exact dx ! 0 < 0"
proof -
  assume "dx \<noteq> 0"
  then have "0 < dx * dx"
    by (auto simp: zero_less_mult_iff)
  then show ?thesis
    by (simp add: fd_coeff_def divide_neg_pos)
qed

section \<open>Runs on the small grids\<close>

lemmas run_simps =
  vc1_interior_def for_loop_iter upto_rec1 vc1_cell_closed cell_ok_def tap_ok_def inb_def
  updated_def new_value_def laplacian_unfold nbrs_def cell_at_def fd_coeff_def
  inject_all_def inject_def rd_def load_def store_def

lemma tiny_sel [simp]:
  "nx tiny = 17" "ny tiny = 17" "nxi tiny = 1" "model_padded2_dt2 tiny = 30" "sources tiny = 40"
  "sources_x tiny = [0]" "sources_y tiny = [0]" "num_sources tiny = 1" "source_len tiny = 2"
  by (simp_all add: tiny_def)

lemma tiny_mem_sel [simp]:
  "tiny_mem 10 = (replicate 289 0)[144 := 1]" "tiny_mem 20 = replicate 289 0"
  "tiny_mem 30 = replicate 289 3" "tiny_mem 40 = [5, 7]"
  by (simp_all add: tiny_mem_def)

lemma tiny2_sel [simp]:
  "nx tiny2 = 17" "ny tiny2 = 17" "nxi tiny2 = 1" "model_padded2_dt2 tiny2 = 30"
  "sources tiny2 = 40" "sources_x tiny2 = [0, 0]" "sources_y tiny2 = [0, 0]"
  "num_sources tiny2 = 2" "source_len tiny2 = 1"
  by (simp_all add: tiny2_def)

lemma two_rows_sel [simp]:
  "nx two_rows = 17" "ny two_rows = 18" "nxi two_rows = 1" "model_padded2_dt2 two_rows = 30"
  "sources two_rows = 40" "sources_x two_rows = [0]" "sources_y two_rows = [0]"
  "num_sources two_rows = 1" "source_len two_rows = 2"
  by (simp_all add: two_rows_def)

lemma two_rows_mem_sel [simp]:
  "two_rows_mem 10 = (replicate 306 0)[144 := 1]" "two_rows_mem 20 = replicate 306 0"
  "two_rows_mem 30 = replicate 306 3" "two_rows_mem 40 = [5, 7]"
  by (simp_all add: two_rows_mem_def)

lemma schedule_in_order: "schedule g (in_order g)"
  by (auto simp: schedule_def in_order_def)

lemma schedule_reversed: "schedule two_rows (\<lambda>t. [9, 8])"
  by (auto simp: schedule_def)

lemma tiny_interior:
  "vc1_interior exact (fd_coeff exact 1) tiny 10 20 tiny_mem =
     Some (tiny_mem(20 := (replicate 289 0)[144 := - (960149 / 58800)]))"
  by (simp add: vc1_interior_def for_loop_iter upto_rec1 vc1_cell_closed cell_ok_def tap_ok_def inb_def
      updated_def new_value_def laplacian_unfold nbrs_def cell_at_def fd_coeff_def)

lemma tiny_inject:
  "inject_all exact tiny 20 0 (tiny_mem(20 := (replicate 289 0)[144 := - (960149 / 58800)])) =
     Some (tiny_mem(20 := (replicate 289 0)[144 := - (78149 / 58800)]))"
  by (simp add: inject_all_def for_loop_iter upto_rec1 inject_def rd_def load_def store_def)

lemma tiny_step1:
  "vc1_step exact tiny 1 1 (tiny_mem, 10, 20) =
     Some (tiny_mem(20 := (replicate 289 0)[144 := - (78149 / 58800)]), 20, 10)"
  by (simp add: vc1_step_def for_loop_iter upto_rec1 tiny_interior tiny_inject)

lemma tiny_inner:
  "inner exact (in_order tiny t) 10 20 tiny (fd_coeff exact 1) 0 tiny_mem =
     Some (tiny_mem(20 := (replicate 289 0)[144 := - (78149 / 58800)]))"
  by (simp add: inner_in_order tiny_interior tiny_inject)

lemma tiny_step1_vc6:
  "vc6_step exact (in_order tiny) tiny 1 1 (tiny_mem, 10, 20) =
     Some (tiny_mem(20 := (replicate 289 0)[144 := - (78149 / 58800)]), 20, 10)"
  by (simp add: vc6_step_def for_loop_iter upto_rec1 tiny_inner)

lemma tiny2_interior:
  "vc1_interior exact (fd_coeff exact 1) tiny2 10 20 tiny_mem =
     Some (tiny_mem(20 := (replicate 289 0)[144 := - (960149 / 58800)]))"
  by (simp add: run_simps)

lemma tiny2_inject:
  "inject_all exact tiny2 20 0 (tiny_mem(20 := (replicate 289 0)[144 := - (960149 / 58800)])) =
     Some (tiny_mem(20 := (replicate 289 0)[144 := 1156651 / 58800]))"
  by (simp add: run_simps)

lemma tiny2_step1:
  "vc1_step exact tiny2 1 1 (tiny_mem, 10, 20) =
     Some (tiny_mem(20 := (replicate 289 0)[144 := 1156651 / 58800]), 20, 10)"
  by (simp add: vc1_step_def for_loop_iter upto_rec1 tiny2_interior tiny2_inject)

lemma tiny2_step1_vc6:
  "vc6_step exact (in_order tiny2) tiny2 1 1 (tiny_mem, 10, 20) =
     Some (tiny_mem(20 := (replicate 289 0)[144 := 1156651 / 58800]), 20, 10)"
  by (simp add: vc6_step_def for_loop_iter upto_rec1 inner_in_order tiny2_interior tiny2_inject)

lemma two_rows_step2:
  "map_option (\<lambda>(h, f, fp). (h 10 ! 144, h 10 ! 161, h 20 ! 144, h 20 ! 161, f, fp))
     (vc1_step exact two_rows 1 2 (two_rows_mem, 10, 20)) =
   Some (242528444201 / 3457440000, - (1038298 / 11025), - (78149 / 58800), 16 / 3, 10, 20)"
  by (simp add: vc1_step_def run_simps)

lemma tiny_constant_f_xx:
  "\<exists>r. vc1_f_xx exact (fd_coeff exact 1) tiny (tiny_mem(10 := replicate 289 2)) 10 8 8 = Some r"
  by (simp add: vc6_f_xx_eq [symmetric] vc6_f_xx_closed tap_ok_def inb_def)

section \<open>Properties of the stepper\<close>

text \<open>
  C1. In every time step \<open>t\<close> of a run that is defined, and for every interior cell
  \<open>(i, j)\<close> with \<open>8 \<le> i < ny - 8\<close> and \<open>8 \<le> j < nxi + 8\<close>, the loops over the
  interior leave in the slot \<open>(i, j)\<close> of the previous buffer the value
  \<open>model_term(i,j) * f_xx + 2 * current(i,j) - previous(i,j)\<close>, with \<open>f_xx\<close> twice
  \<open>coeff[0]\<close> times \<open>current(i,j)\<close> plus, for the taps \<open>k\<close> = 1..8 in turn, \<open>coeff[k]\<close>
  times the sum of the four neighbours at offset \<open>k\<close>; current, previous and model
  are read in the store as the time step finds it. This holds for the sequential
  variant and, whatever the order of the rows, for the parallel one. The arrays
  are distinct, as \<^verbatim>\<open>restrict\<close> promises, and a row of the interior fits into a row
  of the array. A run of a well-formed call is defined, in either variant.
\<close>

theorem interior_update:
  assumes "f \<noteq> fp" "model_padded2_dt2 g \<noteq> f" "model_padded2_dt2 g \<noteq> fp"
    and "nxi g + 8 \<le> nx g" "0 \<le> t" "t < n"
    and "8 \<le> i" "i < ny g - 8" "8 \<le> j" "j < nxi g + 8"
  shows "(well_formed g h0 f fp n \<longrightarrow> (\<exists>s'. vc1_step ar g dx n (h0, f, fp) = Some s')) \<and>
         (well_formed g h0 f fp n \<and> schedule g sched \<longrightarrow>
           (\<exists>s'. vc6_step ar sched g dx n (h0, f, fp) = Some s')) \<and>
         (vc1_step ar g dx n (h0, f, fp) = Some s' \<longrightarrow>
           (\<exists>h cur prev h1 h2. vc1_step ar g dx t (h0, f, fp) = Some (h, cur, prev) \<and>
              vc1_interior ar (fd_coeff ar dx) g cur prev h = Some h1 \<and>
              cell_at h1 prev g i j =
                new_value ar (fd_coeff ar dx) (cell_at h (model_padded2_dt2 g) g)
                  (cell_at h cur g) (cell_at h prev g) i j \<and>
              inject_all ar g prev t h1 = Some h2 \<and>
              vc1_step ar g dx (t + 1) (h0, f, fp) = Some (h2, prev, cur))) \<and>
         (schedule g sched \<and> vc6_step ar sched g dx n (h0, f, fp) = Some s' \<longrightarrow>
           (\<exists>h cur prev h1 h2. vc6_step ar sched g dx t (h0, f, fp) = Some (h, cur, prev) \<and>
              vc6_interior ar (sched t) (fd_coeff ar dx) g cur prev h = Some h1 \<and>
              cell_at h1 prev g i j =
                new_value ar (fd_coeff ar dx) (cell_at h (model_padded2_dt2 g) g)
                  (cell_at h cur g) (cell_at h prev g) i j \<and>
              inject_all ar g prev t h1 = Some h2 \<and>
              vc6_step ar sched g dx (t + 1) (h0, f, fp) = Some (h2, prev, cur)))"
proof (intro conjI impI)
  assume "well_formed g h0 f fp n"
  then show "\<exists>s'. vc1_step ar g dx n (h0, f, fp) = Some s'"
    by (rule vc1_step_defined)
next
  assume "well_formed g h0 f fp n \<and> schedule g sched"
  then have "well_formed g h0 f fp n" "schedule g sched"
    by simp_all
  then show "\<exists>s'. vc6_step ar sched g dx n (h0, f, fp) = Some s'"
    by (rule vc6_step_defined)
next
  assume "vc1_step ar g dx n (h0, f, fp) = Some s'"
  from vc1_pass [OF this assms(5,6)] obtain h cur prev h1 h2
    where st: "vc1_step ar g dx t (h0, f, fp) = Some (h, cur, prev)"
      and i1: "vc1_interior ar (fd_coeff ar dx) g cur prev h = Some h1"
      and rest: "inject_all ar g prev t h1 = Some h2"
        "vc1_step ar g dx (t + 1) (h0, f, fp) = Some (h2, prev, cur)"
    by blast
  from vc1_step_ptrs [OF assms(5) st] assms(1-3)
  have p: "cur \<noteq> prev" "model_padded2_dt2 g \<noteq> prev"
    by auto
  have r: "i \<in> set [8..ny g - 9]"
    using assms(7,8) by simp
  have "distinct [8..ny g - 9]"
    by simp
  from cells_pass [OF p assms(4) this i1 [unfolded vc1_interior_cells] r assms(9,10)] st i1 rest
  show "\<exists>h cur prev h1 h2. vc1_step ar g dx t (h0, f, fp) = Some (h, cur, prev) \<and>
      vc1_interior ar (fd_coeff ar dx) g cur prev h = Some h1 \<and>
      cell_at h1 prev g i j =
        new_value ar (fd_coeff ar dx) (cell_at h (model_padded2_dt2 g) g)
          (cell_at h cur g) (cell_at h prev g) i j \<and>
      inject_all ar g prev t h1 = Some h2 \<and>
      vc1_step ar g dx (t + 1) (h0, f, fp) = Some (h2, prev, cur)"
    by blast
next
  assume a: "schedule g sched \<and> vc6_step ar sched g dx n (h0, f, fp) = Some s'"
  then have sc: "distinct (sched t)" "set (sched t) = {8..<ny g - 8}"
    and run: "vc6_step ar sched g dx n (h0, f, fp) = Some s'"
    by (simp_all add: schedule_def)
  from vc6_pass [OF run assms(5,6)] obtain h cur prev h1 h2
    where st: "vc6_step ar sched g dx t (h0, f, fp) = Some (h, cur, prev)"
      and i1: "vc6_interior ar (sched t) (fd_coeff ar dx) g cur prev h = Some h1"
      and rest: "inject_all ar g prev t h1 = Some h2"
        "vc6_step ar sched g dx (t + 1) (h0, f, fp) = Some (h2, prev, cur)"
    by blast
  from vc6_step_ptrs [OF assms(5) st] assms(1-3)
  have p: "cur \<noteq> prev" "model_padded2_dt2 g \<noteq> prev"
    by auto
  have r: "i \<in> set (sched t)"
    using assms(7,8) sc(2) by simp
  from cells_pass [OF p assms(4) sc(1) i1 [unfolded vc6_interior_cells] r assms(9,10)] st i1 rest
  show "\<exists>h cur prev h1 h2. vc6_step ar sched g dx t (h0, f, fp) = Some (h, cur, prev) \<and>
      vc6_interior ar (sched t) (fd_coeff ar dx) g cur prev h = Some h1 \<and>
      cell_at h1 prev g i j =
        new_value ar (fd_coeff ar dx) (cell_at h (model_padded2_dt2 g) g)
          (cell_at h cur g) (cell_at h prev g) i j \<and>
      inject_all ar g prev t h1 = Some h2 \<and>
      vc6_step ar sched g dx (t + 1) (h0, f, fp) = Some (h2, prev, cur)"
    by blast
qed

theorem interior_update_witness:
  "well_formed tiny tiny_mem 10 20 1 \<and> (10 :: addr) \<noteq> 20 \<and>
   model_padded2_dt2 tiny \<noteq> 10 \<and> model_padded2_dt2 tiny \<noteq> 20 \<and>
   nxi tiny + 8 \<le> nx tiny \<and> (0 :: int) \<le> 0 \<and> (0 :: int) < 1 \<and>
   (8 :: int) \<le> 8 \<and> 8 < ny tiny - 8 \<and> 8 < nxi tiny + 8 \<and>
   vc1_step exact tiny 1 1 (tiny_mem, 10, 20) =
     Some (tiny_mem(20 := (replicate 289 0)[144 := - (78149 / 58800)]), 20, 10) \<and>
   (\<exists>h cur prev h1 h2. vc1_step exact tiny 1 0 (tiny_mem, 10, 20) = Some (h, cur, prev) \<and>
      vc1_interior exact (fd_coeff exact 1) tiny cur prev h = Some h1 \<and>
      cell_at h1 prev tiny 8 8 =
        new_value exact (fd_coeff exact 1) (cell_at h (model_padded2_dt2 tiny) tiny)
          (cell_at h cur tiny) (cell_at h prev tiny) 8 8 \<and>
      inject_all exact tiny prev 0 h1 = Some h2 \<and>
      vc1_step exact tiny 1 (0 + 1) (tiny_mem, 10, 20) = Some (h2, prev, cur)) \<and>
   schedule tiny (in_order tiny) \<and>
   vc6_step exact (in_order tiny) tiny 1 1 (tiny_mem, 10, 20) =
     Some (tiny_mem(20 := (replicate 289 0)[144 := - (78149 / 58800)]), 20, 10) \<and>
   (\<exists>h cur prev h1 h2.
      vc6_step exact (in_order tiny) tiny 1 0 (tiny_mem, 10, 20) = Some (h, cur, prev) \<and>
      vc6_interior exact (in_order tiny 0) (fd_coeff exact 1) tiny cur prev h = Some h1 \<and>
      cell_at h1 prev tiny 8 8 =
        new_value exact (fd_coeff exact 1) (cell_at h (model_padded2_dt2 tiny) tiny)
          (cell_at h cur tiny) (cell_at h prev tiny) 8 8 \<and>
      inject_all exact tiny prev 0 h1 = Some h2 \<and>
      vc6_step exact (in_order tiny) tiny 1 (0 + 1) (tiny_mem, 10, 20) = Some (h2, prev, cur)) \<and>
   new_value exact (fd_coeff exact 1) (cell_at tiny_mem 30 tiny) (cell_at tiny_mem 10 tiny)
     (cell_at tiny_mem 20 tiny) 8 8 = - (960149 / 58800)"
proof -
  have a: "(10 :: addr) \<noteq> 20" "model_padded2_dt2 tiny \<noteq> 10" "model_padded2_dt2 tiny \<noteq> 20"
    "nxi tiny + 8 \<le> nx tiny" "(0 :: int) \<le> 0" "(0 :: int) < 1"
    "(8 :: int) \<le> 8" "8 < ny tiny - 8" "(8 :: int) \<le> 8" "8 < nxi tiny + 8"
    by simp_all
  have wf: "well_formed tiny tiny_mem 10 20 1"
    by (simp add: well_formed_def sources_inside_def upto_rec1)
  note w = interior_update [OF a, where ar = exact and dx = 1 and ?h0.0 = tiny_mem
      and s' = "(tiny_mem(20 := (replicate 289 0)[144 := - (78149 / 58800)]), 20, 10)"
      and sched = "in_order tiny"]
  have v: "new_value exact (fd_coeff exact 1) (cell_at tiny_mem 30 tiny) (cell_at tiny_mem 10 tiny)
     (cell_at tiny_mem 20 tiny) 8 8 = - (960149 / 58800)"
    by (simp add: run_simps)
  from w wf a v tiny_step1 tiny_step1_vc6 schedule_in_order [of tiny] show ?thesis
    by (simp only: simp_thms)
qed

text \<open>
  C2. In every time step \<open>t\<close> and for every source \<open>s\<close>, the injection of \<open>s\<close> runs
  after the loops over the interior have finished (and after the injections of the
  sources before \<open>s\<close>), and what it does is one store: the cell \<open>(sy, sx)\<close>, with
  \<open>sx = sources_x[s] + 8\<close> and \<open>sy = sources_y[s] + 8\<close>, of the buffer just written
  gets its own value plus \<open>model_term(sy,sx) * sources[s][t]\<close>. When no earlier
  source sits on that cell, the value it adds to is the one the interior loops
  left there. The injections of the sources after \<open>s\<close> then lead to the store \<open>h2\<close>,
  which is the result of injecting all sources into the store left by the interior
  loops and is the store of the run of \<open>t + 1\<close> steps, with the two buffers swapped;
  when no later source sits on the cell, \<open>h2\<close> holds there the value that the
  injection of \<open>s\<close> stored. A run of a well-formed call is defined, in either
  variant.
\<close>

theorem source_injection:
  assumes "0 \<le> t" "t < n" "0 \<le> s" "s < num_sources g"
    and "sx = sources_x g ! nat s + 8" "sy = sources_y g ! nat s + 8"
  shows "(well_formed g h0 f fp n \<longrightarrow> (\<exists>s'. vc1_step ar g dx n (h0, f, fp) = Some s')) \<and>
         (well_formed g h0 f fp n \<and> schedule g sched \<longrightarrow>
           (\<exists>s'. vc6_step ar sched g dx n (h0, f, fp) = Some s')) \<and>
         (vc1_step ar g dx n (h0, f, fp) = Some s' \<longrightarrow>
           (\<exists>h cur prev h1 ha hb h2. vc1_step ar g dx t (h0, f, fp) = Some (h, cur, prev) \<and>
              vc1_interior ar (fd_coeff ar dx) g cur prev h = Some h1 \<and>
              for_loop 0 s (inject ar g prev t) h1 = Some ha \<and>
              inject ar g prev t s ha = Some hb \<and>
              for_loop 0 (s + 1) (inject ar g prev t) h1 = Some hb \<and>
              inb (ha prev) (sy * nx g + sx) \<and>
              hb = ha(prev := (ha prev)[nat (sy * nx g + sx) :=
                     fadd ar (cell_at ha prev g sy sx)
                       (fmul ar (cell_at ha (model_padded2_dt2 g) g sy sx)
                          (ha (sources g) ! nat (s * source_len g + t)))]) \<and>
              ((\<forall>r. 0 \<le> r \<and> r < s \<longrightarrow> idx g (source_cell g r) \<noteq> sy * nx g + sx) \<longrightarrow>
                 cell_at ha prev g sy sx = cell_at h1 prev g sy sx) \<and>
              for_loop (s + 1) (num_sources g) (inject ar g prev t) hb = Some h2 \<and>
              ((\<forall>r. s < r \<and> r < num_sources g \<longrightarrow>
                  idx g (source_cell g r) \<noteq> sy * nx g + sx) \<longrightarrow>
                 cell_at h2 prev g sy sx = cell_at hb prev g sy sx) \<and>
              inject_all ar g prev t h1 = Some h2 \<and>
              vc1_step ar g dx (t + 1) (h0, f, fp) = Some (h2, prev, cur))) \<and>
         (vc6_step ar sched g dx n (h0, f, fp) = Some s' \<longrightarrow>
           (\<exists>h cur prev h1 ha hb h2. vc6_step ar sched g dx t (h0, f, fp) = Some (h, cur, prev) \<and>
              vc6_interior ar (sched t) (fd_coeff ar dx) g cur prev h = Some h1 \<and>
              for_loop 0 s (inject ar g prev t) h1 = Some ha \<and>
              inject ar g prev t s ha = Some hb \<and>
              for_loop 0 (s + 1) (inject ar g prev t) h1 = Some hb \<and>
              inb (ha prev) (sy * nx g + sx) \<and>
              hb = ha(prev := (ha prev)[nat (sy * nx g + sx) :=
                     fadd ar (cell_at ha prev g sy sx)
                       (fmul ar (cell_at ha (model_padded2_dt2 g) g sy sx)
                          (ha (sources g) ! nat (s * source_len g + t)))]) \<and>
              ((\<forall>r. 0 \<le> r \<and> r < s \<longrightarrow> idx g (source_cell g r) \<noteq> sy * nx g + sx) \<longrightarrow>
                 cell_at ha prev g sy sx = cell_at h1 prev g sy sx) \<and>
              for_loop (s + 1) (num_sources g) (inject ar g prev t) hb = Some h2 \<and>
              ((\<forall>r. s < r \<and> r < num_sources g \<longrightarrow>
                  idx g (source_cell g r) \<noteq> sy * nx g + sx) \<longrightarrow>
                 cell_at h2 prev g sy sx = cell_at hb prev g sy sx) \<and>
              inject_all ar g prev t h1 = Some h2 \<and>
              vc6_step ar sched g dx (t + 1) (h0, f, fp) = Some (h2, prev, cur)))"
proof (intro conjI impI)
  assume "well_formed g h0 f fp n"
  then show "\<exists>s'. vc1_step ar g dx n (h0, f, fp) = Some s'"
    by (rule vc1_step_defined)
next
  assume "well_formed g h0 f fp n \<and> schedule g sched"
  then have "well_formed g h0 f fp n" "schedule g sched"
    by simp_all
  then show "\<exists>s'. vc6_step ar sched g dx n (h0, f, fp) = Some s'"
    by (rule vc6_step_defined)
next
  assume "vc1_step ar g dx n (h0, f, fp) = Some s'"
  from vc1_pass [OF this assms(1,2)] obtain h cur prev h1 h2
    where st: "vc1_step ar g dx t (h0, f, fp) = Some (h, cur, prev)"
      "vc1_interior ar (fd_coeff ar dx) g cur prev h = Some h1"
      "vc1_step ar g dx (t + 1) (h0, f, fp) = Some (h2, prev, cur)"
      and inj: "inject_all ar g prev t h1 = Some h2"
    by blast
  from inject_one [OF inj assms(3-6)] st inj
  show "\<exists>h cur prev h1 ha hb h2. vc1_step ar g dx t (h0, f, fp) = Some (h, cur, prev) \<and>
      vc1_interior ar (fd_coeff ar dx) g cur prev h = Some h1 \<and>
      for_loop 0 s (inject ar g prev t) h1 = Some ha \<and>
      inject ar g prev t s ha = Some hb \<and>
      for_loop 0 (s + 1) (inject ar g prev t) h1 = Some hb \<and>
      inb (ha prev) (sy * nx g + sx) \<and>
      hb = ha(prev := (ha prev)[nat (sy * nx g + sx) :=
             fadd ar (cell_at ha prev g sy sx)
               (fmul ar (cell_at ha (model_padded2_dt2 g) g sy sx)
                  (ha (sources g) ! nat (s * source_len g + t)))]) \<and>
      ((\<forall>r. 0 \<le> r \<and> r < s \<longrightarrow> idx g (source_cell g r) \<noteq> sy * nx g + sx) \<longrightarrow>
         cell_at ha prev g sy sx = cell_at h1 prev g sy sx) \<and>
      for_loop (s + 1) (num_sources g) (inject ar g prev t) hb = Some h2 \<and>
      ((\<forall>r. s < r \<and> r < num_sources g \<longrightarrow>
          idx g (source_cell g r) \<noteq> sy * nx g + sx) \<longrightarrow>
         cell_at h2 prev g sy sx = cell_at hb prev g sy sx) \<and>
      inject_all ar g prev t h1 = Some h2 \<and>
      vc1_step ar g dx (t + 1) (h0, f, fp) = Some (h2, prev, cur)"
    by blast
next
  assume "vc6_step ar sched g dx n (h0, f, fp) = Some s'"
  from vc6_pass [OF this assms(1,2)] obtain h cur prev h1 h2
    where st: "vc6_step ar sched g dx t (h0, f, fp) = Some (h, cur, prev)"
      "vc6_interior ar (sched t) (fd_coeff ar dx) g cur prev h = Some h1"
      "vc6_step ar sched g dx (t + 1) (h0, f, fp) = Some (h2, prev, cur)"
      and inj: "inject_all ar g prev t h1 = Some h2"
    by blast
  from inject_one [OF inj assms(3-6)] st inj
  show "\<exists>h cur prev h1 ha hb h2. vc6_step ar sched g dx t (h0, f, fp) = Some (h, cur, prev) \<and>
      vc6_interior ar (sched t) (fd_coeff ar dx) g cur prev h = Some h1 \<and>
      for_loop 0 s (inject ar g prev t) h1 = Some ha \<and>
      inject ar g prev t s ha = Some hb \<and>
      for_loop 0 (s + 1) (inject ar g prev t) h1 = Some hb \<and>
      inb (ha prev) (sy * nx g + sx) \<and>
      hb = ha(prev := (ha prev)[nat (sy * nx g + sx) :=
             fadd ar (cell_at ha prev g sy sx)
               (fmul ar (cell_at ha (model_padded2_dt2 g) g sy sx)
                  (ha (sources g) ! nat (s * source_len g + t)))]) \<and>
      ((\<forall>r. 0 \<le> r \<and> r < s \<longrightarrow> idx g (source_cell g r) \<noteq> sy * nx g + sx) \<longrightarrow>
         cell_at ha prev g sy sx = cell_at h1 prev g sy sx) \<and>
      for_loop (s + 1) (num_sources g) (inject ar g prev t) hb = Some h2 \<and>
      ((\<forall>r. s < r \<and> r < num_sources g \<longrightarrow>
          idx g (source_cell g r) \<noteq> sy * nx g + sx) \<longrightarrow>
         cell_at h2 prev g sy sx = cell_at hb prev g sy sx) \<and>
      inject_all ar g prev t h1 = Some h2 \<and>
      vc6_step ar sched g dx (t + 1) (h0, f, fp) = Some (h2, prev, cur)"
    by blast
qed

theorem source_injection_witness:
  "well_formed tiny tiny_mem 10 20 1 \<and> (0 :: int) \<le> 0 \<and> (0 :: int) < 1 \<and> (0 :: int) < num_sources tiny \<and>
   (8 :: int) = sources_x tiny ! nat 0 + 8 \<and> (8 :: int) = sources_y tiny ! nat 0 + 8 \<and>
   vc1_step exact tiny 1 1 (tiny_mem, 10, 20) =
     Some (tiny_mem(20 := (replicate 289 0)[144 := - (78149 / 58800)]), 20, 10) \<and>
   (\<exists>h cur prev h1 ha hb h2. vc1_step exact tiny 1 0 (tiny_mem, 10, 20) = Some (h, cur, prev) \<and>
      vc1_interior exact (fd_coeff exact 1) tiny cur prev h = Some h1 \<and>
      for_loop 0 0 (inject exact tiny prev 0) h1 = Some ha \<and>
      inject exact tiny prev 0 0 ha = Some hb \<and>
      for_loop 0 (0 + 1) (inject exact tiny prev 0) h1 = Some hb \<and>
      inb (ha prev) (8 * nx tiny + 8) \<and>
      hb = ha(prev := (ha prev)[nat (8 * nx tiny + 8) :=
             fadd exact (cell_at ha prev tiny 8 8)
               (fmul exact (cell_at ha (model_padded2_dt2 tiny) tiny 8 8)
                  (ha (sources tiny) ! nat (0 * source_len tiny + 0)))]) \<and>
      ((\<forall>r. 0 \<le> r \<and> r < 0 \<longrightarrow> idx tiny (source_cell tiny r) \<noteq> 8 * nx tiny + 8) \<longrightarrow>
         cell_at ha prev tiny 8 8 = cell_at h1 prev tiny 8 8) \<and>
      for_loop (0 + 1) (num_sources tiny) (inject exact tiny prev 0) hb = Some h2 \<and>
      ((\<forall>r. 0 < r \<and> r < num_sources tiny \<longrightarrow>
          idx tiny (source_cell tiny r) \<noteq> 8 * nx tiny + 8) \<longrightarrow>
         cell_at h2 prev tiny 8 8 = cell_at hb prev tiny 8 8) \<and>
      inject_all exact tiny prev 0 h1 = Some h2 \<and>
      vc1_step exact tiny 1 (0 + 1) (tiny_mem, 10, 20) = Some (h2, prev, cur)) \<and>
   vc6_step exact (in_order tiny) tiny 1 1 (tiny_mem, 10, 20) =
     Some (tiny_mem(20 := (replicate 289 0)[144 := - (78149 / 58800)]), 20, 10) \<and>
   (\<exists>h cur prev h1 ha hb h2.
      vc6_step exact (in_order tiny) tiny 1 0 (tiny_mem, 10, 20) = Some (h, cur, prev) \<and>
      vc6_interior exact (in_order tiny 0) (fd_coeff exact 1) tiny cur prev h = Some h1 \<and>
      for_loop 0 0 (inject exact tiny prev 0) h1 = Some ha \<and>
      inject exact tiny prev 0 0 ha = Some hb \<and>
      for_loop 0 (0 + 1) (inject exact tiny prev 0) h1 = Some hb \<and>
      inb (ha prev) (8 * nx tiny + 8) \<and>
      hb = ha(prev := (ha prev)[nat (8 * nx tiny + 8) :=
             fadd exact (cell_at ha prev tiny 8 8)
               (fmul exact (cell_at ha (model_padded2_dt2 tiny) tiny 8 8)
                  (ha (sources tiny) ! nat (0 * source_len tiny + 0)))]) \<and>
      ((\<forall>r. 0 \<le> r \<and> r < 0 \<longrightarrow> idx tiny (source_cell tiny r) \<noteq> 8 * nx tiny + 8) \<longrightarrow>
         cell_at ha prev tiny 8 8 = cell_at h1 prev tiny 8 8) \<and>
      for_loop (0 + 1) (num_sources tiny) (inject exact tiny prev 0) hb = Some h2 \<and>
      ((\<forall>r. 0 < r \<and> r < num_sources tiny \<longrightarrow>
          idx tiny (source_cell tiny r) \<noteq> 8 * nx tiny + 8) \<longrightarrow>
         cell_at h2 prev tiny 8 8 = cell_at hb prev tiny 8 8) \<and>
      inject_all exact tiny prev 0 h1 = Some h2 \<and>
      vc6_step exact (in_order tiny) tiny 1 (0 + 1) (tiny_mem, 10, 20) = Some (h2, prev, cur)) \<and>
   inject exact tiny 20 0 0 (tiny_mem(20 := (replicate 289 0)[144 := - (960149 / 58800)])) =
     Some (tiny_mem(20 := (replicate 289 0)[144 := - (960149 / 58800) + 3 * 5]))"
proof -
  have a: "(0 :: int) \<le> 0" "(0 :: int) < 1" "(0 :: int) \<le> 0" "(0 :: int) < num_sources tiny"
    "(8 :: int) = sources_x tiny ! nat 0 + 8" "(8 :: int) = sources_y tiny ! nat 0 + 8"
    by simp_all
  have wf: "well_formed tiny tiny_mem 10 20 1"
    by (simp add: well_formed_def sources_inside_def upto_rec1)
  note w = source_injection [OF a, where ar = exact and dx = 1 and ?h0.0 = tiny_mem
      and f = 10 and fp = 20
      and s' = "(tiny_mem(20 := (replicate 289 0)[144 := - (78149 / 58800)]), 20, 10)"
      and sched = "in_order tiny"]
  have v: "inject exact tiny 20 0 0 (tiny_mem(20 := (replicate 289 0)[144 := - (960149 / 58800)])) =
     Some (tiny_mem(20 := (replicate 289 0)[144 := - (960149 / 58800) + 3 * 5]))"
    by (simp add: run_simps)
  from w wf a v tiny_step1 tiny_step1_vc6 show ?thesis
    by (simp only: simp_thms)
qed

text \<open>
  C3. The table that \<^verbatim>\<open>step\<close> builds is the list of the nine numerators, each
  divided by 302702400 and then by \<open>dx * dx\<close>. It is built before the time loop
  and every pass of the loop is given this one table. Entry 0 is the central
  coefficient, taken with the factor 2, and entry \<open>k\<close> multiplies the four
  neighbours at offset \<open>k\<close>, for \<open>k\<close> from 1 to 8.
\<close>

theorem coefficients_once_per_call:
  "fd_coeff ar dx = map (coefficient ar dx) numerators \<and> length (fd_coeff ar dx) = 9 \<and>
   vc1_step ar g dx n s = for_loop 0 n (vc1_body ar (map (coefficient ar dx) numerators) g) s \<and>
   vc6_step ar sched g dx n s =
     for_loop 0 n (vc6_body ar sched (map (coefficient ar dx) numerators) g) s \<and>
   vc1_f_xx ar (fd_coeff ar dx) g h f i j =
     (if inb (h f) (i * nx g + j) \<and> list_all (tap_ok g (h f) i j) [1, 2, 3, 4, 5, 6, 7, 8]
      then Some (laplacian ar (map (coefficient ar dx) numerators) (cell_at h f g) i j)
      else None) \<and>
   vc6_f_xx ar (fd_coeff ar dx) g h f i j = vc1_f_xx ar (fd_coeff ar dx) g h f i j"
proof -
  have c: "fd_coeff ar dx = map (coefficient ar dx) numerators"
    by (simp add: fd_coeff_def coefficient_def numerators_def denominator_def)
  have l: "length (fd_coeff ar dx) = 9"
    by (simp add: fd_coeff_def)
  show ?thesis
    using l by (simp add: c [symmetric] vc1_step_def vc6_step_def vc6_f_xx_eq [symmetric] vc6_f_xx_closed)
qed

text \<open>
  C4, as amended. In exact rational arithmetic and for \<open>dx \<noteq> 0\<close>, the central
  coefficient is negative, \<open>2 * coeff[0] + 4 * sum(coeff[1..8])\<close> is 0, and
  \<^verbatim>\<open>f_xx\<close> of a constant field is 0 in either variant.
\<close>

theorem constant_field_zero:
  assumes "dx \<noteq> 0"
  shows "fd_coeff exact dx ! 0 < 0 \<and>
         2 * (fd_coeff exact dx ! 0) + 4 * sum_list (tl (fd_coeff exact dx)) = 0 \<and>
         (vc1_f_xx exact (fd_coeff exact dx) g (h(f := replicate m v)) f i j = Some r \<longrightarrow> r = 0) \<and>
         (vc6_f_xx exact (fd_coeff exact dx) g (h(f := replicate m v)) f i j = Some r \<longrightarrow> r = 0)"
  using assms f_xx_on_constant [of dx g h f m v i j r]
  by (simp add: coeff_sum_zero coeff_centre_negative vc6_f_xx_eq)

theorem constant_field_zero_witness:
  "(1 :: rat) \<noteq> 0 \<and> fd_coeff exact 1 ! 0 < 0 \<and>
   2 * (fd_coeff exact 1 ! 0) + 4 * sum_list (tl (fd_coeff exact 1)) = 0 \<and>
   vc1_f_xx exact (fd_coeff exact 1) tiny (tiny_mem(10 := replicate 289 2)) 10 8 8 = Some 0 \<and>
   vc6_f_xx exact (fd_coeff exact 1) tiny (tiny_mem(10 := replicate 289 2)) 10 8 8 = Some 0"
proof -
  have one: "(1 :: rat) \<noteq> 0" by simp
  from tiny_constant_f_xx obtain r
    where r: "vc1_f_xx exact (fd_coeff exact 1) tiny (tiny_mem(10 := replicate 289 2)) 10 8 8 = Some r"
    by blast
  from constant_field_zero [OF one, of tiny tiny_mem 10 289 2 8 8 r] r show ?thesis
    by (simp add: vc6_f_xx_eq)
qed

text \<open>
  The sum as the claim writes it, \<open>2 * coeff[0] + 2 * sum(coeff[1..8]) * 4\<close>, counts
  the off-centre coefficients twice as often and is not 0.
\<close>

theorem constant_field_sum_counterexample:
  "2 * (fd_coeff exact 1 ! 0) + 2 * sum_list (tl (fd_coeff exact 1)) * 4 \<noteq> 0"
  by (simp add: fd_coeff_def)

text \<open>
  C5. After \<^verbatim>\<open>num_steps \<ge> 0\<close> passes of the time loop the pointer \<^verbatim>\<open>f\<close> is the
  caller's \<^verbatim>\<open>f\<close> when the number of passes is even and the caller's \<^verbatim>\<open>fp\<close> when it
  is odd, and \<^verbatim>\<open>fp\<close> is the other one. The last pass wrote the newest time level
  into the array that \<^verbatim>\<open>f\<close> names at the end, reading the other array as the
  current field; the exchange of the pointers after a pass leaves the store as the
  source injection left it, so no sample is copied. A run of a well-formed call
  is defined, in either variant.
\<close>

theorem roles_after_steps:
  assumes "0 \<le> n"
  shows "(well_formed g h f fp n \<longrightarrow> (\<exists>s'. vc1_step ar g dx n (h, f, fp) = Some s')) \<and>
         (well_formed g h f fp n \<and> schedule g sched \<longrightarrow>
           (\<exists>s'. vc6_step ar sched g dx n (h, f, fp) = Some s')) \<and>
         (vc1_step ar g dx n (h, f, fp) = Some (h', f', fp') \<longrightarrow>
            f' = (if even n then f else fp) \<and> fp' = (if even n then fp else f) \<and>
            (0 < n \<longrightarrow> (\<exists>h0 h1. vc1_step ar g dx (n - 1) (h, f, fp) = Some (h0, fp', f') \<and>
               vc1_interior ar (fd_coeff ar dx) g fp' f' h0 = Some h1 \<and>
               inject_all ar g f' (n - 1) h1 = Some h'))) \<and>
         (vc6_step ar sched g dx n (h, f, fp) = Some (h', f', fp') \<longrightarrow>
            f' = (if even n then f else fp) \<and> fp' = (if even n then fp else f) \<and>
            (0 < n \<longrightarrow> (\<exists>h0. vc6_step ar sched g dx (n - 1) (h, f, fp) = Some (h0, fp', f') \<and>
               inner ar (sched (n - 1)) fp' f' g (fd_coeff ar dx) (n - 1) h0 = Some h')))"
proof (intro conjI impI)
  assume "well_formed g h f fp n"
  then show "\<exists>s'. vc1_step ar g dx n (h, f, fp) = Some s'"
    by (rule vc1_step_defined)
next
  assume "well_formed g h f fp n \<and> schedule g sched"
  then have "well_formed g h f fp n" "schedule g sched"
    by simp_all
  then show "\<exists>s'. vc6_step ar sched g dx n (h, f, fp) = Some s'"
    by (rule vc6_step_defined)
next
  assume r: "vc1_step ar g dx n (h, f, fp) = Some (h', f', fp')"
  from r have r': "for_loop 0 n (vc1_body ar (fd_coeff ar dx) g) (h, f, fp) = Some (h', f', fp')"
    by (simp add: vc1_step_def)
  from for_loop_swap_parity [OF vc1_body_ptrs assms r']
  show "f' = (if even n then f else fp)" "fp' = (if even n then fp else f)"
    by simp_all
  assume "0 < n"
  from for_loop_last_step [OF this r'] obtain s0
    where s0: "vc1_step ar g dx (n - 1) (h, f, fp) = Some s0"
      and b: "vc1_body ar (fd_coeff ar dx) g (n - 1) s0 = Some (h', f', fp')"
    unfolding vc1_step_def by blast
  obtain h0 f0 fp0 where s0_eq: "s0 = (h0, f0, fp0)"
    by (cases s0) auto
  from b s0 show "\<exists>h0 h1. vc1_step ar g dx (n - 1) (h, f, fp) = Some (h0, fp', f') \<and>
      vc1_interior ar (fd_coeff ar dx) g fp' f' h0 = Some h1 \<and>
      inject_all ar g f' (n - 1) h1 = Some h'"
    unfolding s0_eq by (simp split: Option.bind_splits)
next
  assume r: "vc6_step ar sched g dx n (h, f, fp) = Some (h', f', fp')"
  from r have r': "for_loop 0 n (vc6_body ar sched (fd_coeff ar dx) g) (h, f, fp) = Some (h', f', fp')"
    by (simp add: vc6_step_def)
  from for_loop_swap_parity [OF vc6_body_ptrs assms r']
  show "f' = (if even n then f else fp)" "fp' = (if even n then fp else f)"
    by simp_all
  assume "0 < n"
  from for_loop_last_step [OF this r'] obtain s0
    where s0: "vc6_step ar sched g dx (n - 1) (h, f, fp) = Some s0"
      and b: "vc6_body ar sched (fd_coeff ar dx) g (n - 1) s0 = Some (h', f', fp')"
    unfolding vc6_step_def by blast
  obtain h0 f0 fp0 where s0_eq: "s0 = (h0, f0, fp0)"
    by (cases s0) auto
  from b s0 show "\<exists>h0. vc6_step ar sched g dx (n - 1) (h, f, fp) = Some (h0, fp', f') \<and>
      inner ar (sched (n - 1)) fp' f' g (fd_coeff ar dx) (n - 1) h0 = Some h'"
    unfolding s0_eq by (simp split: Option.bind_splits)
qed

theorem roles_after_steps_witness:
  "well_formed tiny tiny_mem 10 20 1 \<and> schedule tiny (in_order tiny) \<and> (0 :: int) \<le> 1 \<and>
   vc1_step exact tiny 1 1 (tiny_mem, 10, 20) =
     Some (tiny_mem(20 := (replicate 289 0)[144 := - (78149 / 58800)]), 20, 10) \<and>
   (20 :: addr) = (if even (1 :: int) then 10 else 20) \<and>
   (10 :: addr) = (if even (1 :: int) then 20 else 10) \<and>
   (\<exists>h0 h1. vc1_step exact tiny 1 (1 - 1) (tiny_mem, 10, 20) = Some (h0, 10, 20) \<and>
      vc1_interior exact (fd_coeff exact 1) tiny 10 20 h0 = Some h1 \<and>
      inject_all exact tiny 20 (1 - 1) h1 =
        Some (tiny_mem(20 := (replicate 289 0)[144 := - (78149 / 58800)]))) \<and>
   vc6_step exact (in_order tiny) tiny 1 1 (tiny_mem, 10, 20) =
     Some (tiny_mem(20 := (replicate 289 0)[144 := - (78149 / 58800)]), 20, 10) \<and>
   (\<exists>h0. vc6_step exact (in_order tiny) tiny 1 (1 - 1) (tiny_mem, 10, 20) = Some (h0, 10, 20) \<and>
      inner exact (in_order tiny (1 - 1)) 10 20 tiny (fd_coeff exact 1) (1 - 1) h0 =
        Some (tiny_mem(20 := (replicate 289 0)[144 := - (78149 / 58800)])))"
proof -
  have n: "(0 :: int) \<le> 1" by simp
  have wf: "well_formed tiny tiny_mem 10 20 1"
    by (simp add: well_formed_def sources_inside_def upto_rec1)
  note w = roles_after_steps [OF n, where ar = exact and g = tiny and dx = 1 and h = tiny_mem
      and f = 10 and fp = 20 and h' = "tiny_mem(20 := (replicate 289 0)[144 := - (78149 / 58800)])"
      and f' = 20 and fp' = 10 and sched = "in_order tiny"]
  from w wf schedule_in_order [of tiny] tiny_step1 tiny_step1_vc6 show ?thesis
    by simp
qed

text \<open>
  C6. With \<^verbatim>\<open>num_steps = 0\<close> the call returns at once, in either variant: the
  store (both field buffers, every cell) and the two pointers are what they were.
\<close>

theorem zero_steps_noop:
  "vc1_step ar g dx 0 s = Some s \<and> vc6_step ar sched g dx 0 s = Some s"
  by (simp add: vc1_step_def vc6_step_def for_loop_done)

text \<open>
  C7. When every source lies in the interior and a row of the interior fits into
  a row of the array, a run that is defined leaves every cell \<open>(i, j)\<close> outside
  \<open>[8, ny - 8) \<times> [8, nxi + 8)\<close> of both field buffers as the caller supplied it, keeps
  the lengths of the buffers, and leaves every other array of the store as it
  was, the model array among them when it is not one of the buffers. A run of a
  well-formed call is defined, in either variant.
\<close>

theorem halo_and_model_untouched:
  assumes "sources_inside g"
    and "nxi g + 8 \<le> nx g"
    and "0 \<le> i" "0 \<le> j" "j < nx g"
    and "\<not> (8 \<le> i \<and> i < ny g - 8 \<and> 8 \<le> j \<and> j < nxi g + 8)"
  shows "(well_formed g h f fp n \<longrightarrow> (\<exists>s'. vc1_step ar g dx n (h, f, fp) = Some s')) \<and>
         (well_formed g h f fp n \<and> schedule g sched \<longrightarrow>
           (\<exists>s'. vc6_step ar sched g dx n (h, f, fp) = Some s')) \<and>
         (vc1_step ar g dx n (h, f, fp) = Some (h', f', fp') \<longrightarrow>
           cell_at h' f g i j = cell_at h f g i j \<and> cell_at h' fp g i j = cell_at h fp g i j \<and>
           length (h' f) = length (h f) \<and> length (h' fp) = length (h fp) \<and>
           (\<forall>q. q \<noteq> f \<and> q \<noteq> fp \<longrightarrow> h' q = h q) \<and>
           (model_padded2_dt2 g \<noteq> f \<and> model_padded2_dt2 g \<noteq> fp \<longrightarrow>
              h' (model_padded2_dt2 g) = h (model_padded2_dt2 g))) \<and>
         (schedule g sched \<and> vc6_step ar sched g dx n (h, f, fp) = Some (h', f', fp') \<longrightarrow>
           cell_at h' f g i j = cell_at h f g i j \<and> cell_at h' fp g i j = cell_at h fp g i j \<and>
           length (h' f) = length (h f) \<and> length (h' fp) = length (h fp) \<and>
           (\<forall>q. q \<noteq> f \<and> q \<noteq> fp \<longrightarrow> h' q = h q) \<and>
           (model_padded2_dt2 g \<noteq> f \<and> model_padded2_dt2 g \<noteq> fp \<longrightarrow>
              h' (model_padded2_dt2 g) = h (model_padded2_dt2 g)))"
proof -
  let ?R = "(\<lambda>x. nat (idx g x)) ` set (cells g [8..ny g - 9])"
  have out: "nat (i * nx g + j) \<notin> ?R"
    using assms(2) rows_in_order assms(3-6) by (rule outside_region)
  have concl: "cell_at h' f g i j = cell_at h f g i j \<and> cell_at h' fp g i j = cell_at h fp g i j \<and>
      length (h' f) = length (h f) \<and> length (h' fp) = length (h fp) \<and>
      (\<forall>q. q \<noteq> f \<and> q \<noteq> fp \<longrightarrow> h' q = h q) \<and>
      (model_padded2_dt2 g \<noteq> f \<and> model_padded2_dt2 g \<noteq> fp \<longrightarrow>
         h' (model_padded2_dt2 g) = h (model_padded2_dt2 g))"
    if fr: "(\<forall>q. q \<noteq> f \<and> q \<noteq> fp \<longrightarrow> h' q = h q) \<and>
      length (h' f) = length (h f) \<and> length (h' fp) = length (h fp) \<and>
      (\<forall>k. k \<notin> ?R \<longrightarrow> h' f ! k = h f ! k \<and> h' fp ! k = h fp ! k)"
    using fr out by (simp add: cell_at_def)
  show ?thesis
  proof (intro conjI; rule impI)
    assume "well_formed g h f fp n"
    then show "\<exists>s'. vc1_step ar g dx n (h, f, fp) = Some s'"
      by (rule vc1_step_defined)
  next
    assume "well_formed g h f fp n \<and> schedule g sched"
    then have "well_formed g h f fp n" "schedule g sched"
      by simp_all
    then show "\<exists>s'. vc6_step ar sched g dx n (h, f, fp) = Some s'"
      by (rule vc6_step_defined)
  next
    assume "vc1_step ar g dx n (h, f, fp) = Some (h', f', fp')"
    then have run: "for_loop 0 n (vc1_body ar (fd_coeff ar dx) g) (h, f, fp) = Some (h', f', fp')"
      by (simp add: vc1_step_def)
    from run_frame [of "vc1_body ar (fd_coeff ar dx) g" ?R n h f fp h' f' fp',
        OF vc1_body_frame [OF sources_insideD [OF assms(1)]] run]
    show "cell_at h' f g i j = cell_at h f g i j \<and> cell_at h' fp g i j = cell_at h fp g i j \<and>
      length (h' f) = length (h f) \<and> length (h' fp) = length (h fp) \<and>
      (\<forall>q. q \<noteq> f \<and> q \<noteq> fp \<longrightarrow> h' q = h q) \<and>
      (model_padded2_dt2 g \<noteq> f \<and> model_padded2_dt2 g \<noteq> fp \<longrightarrow>
         h' (model_padded2_dt2 g) = h (model_padded2_dt2 g))"
      by (rule concl)
  next
    assume "schedule g sched \<and> vc6_step ar sched g dx n (h, f, fp) = Some (h', f', fp')"
    then have sc: "schedule g sched"
      and run: "for_loop 0 n (vc6_body ar sched (fd_coeff ar dx) g) (h, f, fp) = Some (h', f', fp')"
      by (simp_all add: vc6_step_def)
    from run_frame [of "vc6_body ar sched (fd_coeff ar dx) g" ?R n h f fp h' f' fp',
        OF vc6_body_frame [OF sources_insideD [OF assms(1)] sc] run]
    show "cell_at h' f g i j = cell_at h f g i j \<and> cell_at h' fp g i j = cell_at h fp g i j \<and>
      length (h' f) = length (h f) \<and> length (h' fp) = length (h fp) \<and>
      (\<forall>q. q \<noteq> f \<and> q \<noteq> fp \<longrightarrow> h' q = h q) \<and>
      (model_padded2_dt2 g \<noteq> f \<and> model_padded2_dt2 g \<noteq> fp \<longrightarrow>
         h' (model_padded2_dt2 g) = h (model_padded2_dt2 g))"
      by (rule concl)
  qed
qed

theorem halo_and_model_untouched_witness:
  "well_formed tiny tiny_mem 10 20 1 \<and> sources_inside tiny \<and> nxi tiny + 8 \<le> nx tiny \<and> (0 :: int) \<le> 7 \<and> (0 :: int) \<le> 8 \<and>
   8 < nx tiny \<and> \<not> ((8 :: int) \<le> 7 \<and> 7 < ny tiny - 8 \<and> (8 :: int) \<le> 8 \<and> 8 < nxi tiny + 8) \<and>
   vc1_step exact tiny 1 1 (tiny_mem, 10, 20) =
     Some (tiny_mem(20 := (replicate 289 0)[144 := - (78149 / 58800)]), 20, 10) \<and>
   cell_at (tiny_mem(20 := (replicate 289 0)[144 := - (78149 / 58800)])) 10 tiny 7 8 =
     cell_at tiny_mem 10 tiny 7 8 \<and>
   cell_at (tiny_mem(20 := (replicate 289 0)[144 := - (78149 / 58800)])) 20 tiny 7 8 =
     cell_at tiny_mem 20 tiny 7 8 \<and>
   length ((tiny_mem(20 := (replicate 289 0)[144 := - (78149 / 58800)])) 10) = length (tiny_mem 10) \<and>
   length ((tiny_mem(20 := (replicate 289 0)[144 := - (78149 / 58800)])) 20) = length (tiny_mem 20) \<and>
   (tiny_mem(20 := (replicate 289 0)[144 := - (78149 / 58800)])) 40 = tiny_mem 40 \<and>
   (tiny_mem(20 := (replicate 289 0)[144 := - (78149 / 58800)])) (model_padded2_dt2 tiny) =
     tiny_mem (model_padded2_dt2 tiny) \<and>
   schedule tiny (in_order tiny) \<and>
   vc6_step exact (in_order tiny) tiny 1 1 (tiny_mem, 10, 20) =
     Some (tiny_mem(20 := (replicate 289 0)[144 := - (78149 / 58800)]), 20, 10)"
proof -
  have a: "sources_inside tiny" "nxi tiny + 8 \<le> nx tiny" "(0 :: int) \<le> 7" "(0 :: int) \<le> 8"
    "8 < nx tiny" "\<not> ((8 :: int) \<le> 7 \<and> 7 < ny tiny - 8 \<and> (8 :: int) \<le> 8 \<and> 8 < nxi tiny + 8)"
    by (simp_all add: sources_inside_def upto_rec1)
  have wf: "well_formed tiny tiny_mem 10 20 1"
    by (simp add: well_formed_def sources_inside_def upto_rec1)
  note w = halo_and_model_untouched [OF a, where ar = exact and dx = 1 and n = 1 and h = tiny_mem
      and f = 10 and fp = 20 and h' = "tiny_mem(20 := (replicate 289 0)[144 := - (78149 / 58800)])"
      and f' = 20 and fp' = 10 and sched = "in_order tiny"]
  from w tiny_step1 have "cell_at (tiny_mem(20 := (replicate 289 0)[144 := - (78149 / 58800)])) 10 tiny 7 8 =
     cell_at tiny_mem 10 tiny 7 8 \<and>
   cell_at (tiny_mem(20 := (replicate 289 0)[144 := - (78149 / 58800)])) 20 tiny 7 8 =
     cell_at tiny_mem 20 tiny 7 8 \<and>
   length ((tiny_mem(20 := (replicate 289 0)[144 := - (78149 / 58800)])) 10) = length (tiny_mem 10) \<and>
   length ((tiny_mem(20 := (replicate 289 0)[144 := - (78149 / 58800)])) 20) = length (tiny_mem 20) \<and>
   (tiny_mem(20 := (replicate 289 0)[144 := - (78149 / 58800)])) 40 = tiny_mem 40 \<and>
   (tiny_mem(20 := (replicate 289 0)[144 := - (78149 / 58800)])) (model_padded2_dt2 tiny) =
     tiny_mem (model_padded2_dt2 tiny)"
    by simp
  with wf a tiny_step1 tiny_step1_vc6 schedule_in_order [of tiny] show ?thesis
    by (simp only: simp_thms)
qed

text \<open>
  C8. For distinct arrays and a row of the interior that fits into a row of the
  array, the parallel variant returns what the sequential variant returns, defined
  or not, whatever order the rows of each time step are run in; so two runs of the
  parallel variant with different orders agree as well. Each arithmetic operator
  of the source is one operation on samples here, so the two results are equal
  sample by sample for every such arithmetic. For a well-formed call the common
  result is defined.
\<close>

theorem variants_agree:
  assumes "schedule g sched" "schedule g sched'"
    and "f \<noteq> fp" "model_padded2_dt2 g \<noteq> f" "model_padded2_dt2 g \<noteq> fp"
    and "nxi g + 8 \<le> nx g"
  shows "vc6_step ar sched g dx n (h, f, fp) = vc1_step ar g dx n (h, f, fp) \<and>
         vc6_step ar sched' g dx n (h, f, fp) = vc6_step ar sched g dx n (h, f, fp) \<and>
         (well_formed g h f fp n \<longrightarrow> (\<exists>s'. vc1_step ar g dx n (h, f, fp) = Some s'))"
proof -
  have "vc6_step ar sched g dx n (h, f, fp) = vc1_step ar g dx n (h, f, fp)"
    using assms(1) assms(3-6) by (rule vc6_step_any_order)
  moreover have "vc6_step ar sched' g dx n (h, f, fp) = vc1_step ar g dx n (h, f, fp)"
    using assms(2) assms(3-6) by (rule vc6_step_any_order)
  moreover have "well_formed g h f fp n \<longrightarrow> (\<exists>s'. vc1_step ar g dx n (h, f, fp) = Some s')"
    using vc1_step_defined [of g h f fp n ar dx] by blast
  ultimately show ?thesis
    by (simp only: simp_thms)
qed

theorem variants_agree_witness:
  "well_formed two_rows two_rows_mem 10 20 2 \<and> schedule two_rows (\<lambda>t. [9, 8]) \<and> schedule two_rows (in_order two_rows) \<and>
   (10 :: addr) \<noteq> 20 \<and> model_padded2_dt2 two_rows \<noteq> 10 \<and> model_padded2_dt2 two_rows \<noteq> 20 \<and>
   nxi two_rows + 8 \<le> nx two_rows \<and>
   vc6_step exact (\<lambda>t. [9, 8]) two_rows 1 2 (two_rows_mem, 10, 20) =
     vc1_step exact two_rows 1 2 (two_rows_mem, 10, 20) \<and>
   vc6_step exact (in_order two_rows) two_rows 1 2 (two_rows_mem, 10, 20) =
     vc6_step exact (\<lambda>t. [9, 8]) two_rows 1 2 (two_rows_mem, 10, 20) \<and>
   map_option (\<lambda>(h, f, fp). (h 10 ! 144, h 10 ! 161, h 20 ! 144, h 20 ! 161, f, fp))
     (vc6_step exact (\<lambda>t. [9, 8]) two_rows 1 2 (two_rows_mem, 10, 20)) =
   Some (242528444201 / 3457440000, - (1038298 / 11025), - (78149 / 58800), 16 / 3, 10, 20)"
proof -
  have a: "schedule two_rows (\<lambda>t. [9, 8])" "schedule two_rows (in_order two_rows)"
    "(10 :: addr) \<noteq> 20" "model_padded2_dt2 two_rows \<noteq> 10" "model_padded2_dt2 two_rows \<noteq> 20"
    "nxi two_rows + 8 \<le> nx two_rows"
    by (simp_all add: schedule_reversed schedule_in_order)
  have wf: "well_formed two_rows two_rows_mem 10 20 2"
    by (simp add: well_formed_def sources_inside_def upto_rec1)
  note w = variants_agree [OF a, where ar = exact and dx = 1 and n = 2 and h = two_rows_mem]
  from w wf a two_rows_step2 show ?thesis
    by (simp only: simp_thms)
qed

text \<open>
  C9. With \<^verbatim>\<open>num_steps < 0\<close> the call does what it does with \<^verbatim>\<open>num_steps = 0\<close>:
  the body of the time loop never runs and the state is returned as it was. The
  result is defined for every store, also one whose arrays are all empty, where
  any load would be undefined: no element of the sources or of the model is read.
\<close>

theorem negative_steps_noop:
  assumes "n < 0"
  shows "vc1_step ar g dx n s = Some s \<and> vc1_step ar g dx n s = vc1_step ar g dx 0 s \<and>
         vc6_step ar sched g dx n s = Some s \<and>
         vc6_step ar sched g dx n s = vc6_step ar sched g dx 0 s"
  using assms by (simp add: vc1_step_def vc6_step_def for_loop_done)

theorem negative_steps_noop_witness:
  "(- 3 :: int) < 0 \<and>
   vc1_step exact (tiny\<lparr>sources_x := [], sources_y := []\<rparr>) 1 (- 3) (\<lambda>p. [], 10, 20) = Some (\<lambda>p. [], 10, 20) \<and>
   vc6_step exact (in_order tiny) (tiny\<lparr>sources_x := [], sources_y := []\<rparr>) 1 (- 3) (\<lambda>p. [], 10, 20) = Some (\<lambda>p. [], 10, 20)"
  using negative_steps_noop [of "- 3" exact "tiny\<lparr>sources_x := [], sources_y := []\<rparr>" 1
      "(\<lambda>p. [], 10, 20)" "in_order tiny"]
  by simp

text \<open>
  C10. In every time step, the value of a cell after the injections is the value
  the interior loops left there to which, for each source on that cell in the
  order of the source indices, the model term of the cell times the amplitude of
  that source in this time step has been added: injections on one cell accumulate.
  The model and the amplitudes are not one of the two buffers, as \<^verbatim>\<open>restrict\<close>
  promises. A run of a well-formed call is defined, in either variant.
\<close>

theorem injections_accumulate:
  assumes "model_padded2_dt2 g \<noteq> f" "model_padded2_dt2 g \<noteq> fp"
    and "sources g \<noteq> f" "sources g \<noteq> fp" "0 \<le> t" "t < n"
  shows "(well_formed g h0 f fp n \<longrightarrow> (\<exists>s'. vc1_step ar g dx n (h0, f, fp) = Some s')) \<and>
         (well_formed g h0 f fp n \<and> schedule g sched \<longrightarrow>
           (\<exists>s'. vc6_step ar sched g dx n (h0, f, fp) = Some s')) \<and>
         (vc1_step ar g dx n (h0, f, fp) = Some s' \<longrightarrow>
           (\<exists>h cur prev h1 h2. vc1_step ar g dx t (h0, f, fp) = Some (h, cur, prev) \<and>
              vc1_interior ar (fd_coeff ar dx) g cur prev h = Some h1 \<and>
              inject_all ar g prev t h1 = Some h2 \<and>
              vc1_step ar g dx (t + 1) (h0, f, fp) = Some (h2, prev, cur) \<and>
              (\<forall>i j. inb (h1 prev) (i * nx g + j) \<longrightarrow>
                 cell_at h2 prev g i j =
                   injected ar g (h1 (sources g)) t (cell_at h1 (model_padded2_dt2 g) g i j)
                     (i * nx g + j) [0..num_sources g - 1] (cell_at h1 prev g i j)))) \<and>
         (vc6_step ar sched g dx n (h0, f, fp) = Some s' \<longrightarrow>
           (\<exists>h cur prev h1 h2. vc6_step ar sched g dx t (h0, f, fp) = Some (h, cur, prev) \<and>
              vc6_interior ar (sched t) (fd_coeff ar dx) g cur prev h = Some h1 \<and>
              inject_all ar g prev t h1 = Some h2 \<and>
              vc6_step ar sched g dx (t + 1) (h0, f, fp) = Some (h2, prev, cur) \<and>
              (\<forall>i j. inb (h1 prev) (i * nx g + j) \<longrightarrow>
                 cell_at h2 prev g i j =
                   injected ar g (h1 (sources g)) t (cell_at h1 (model_padded2_dt2 g) g i j)
                     (i * nx g + j) [0..num_sources g - 1] (cell_at h1 prev g i j))))"
proof (intro conjI impI)
  assume "well_formed g h0 f fp n"
  then show "\<exists>s'. vc1_step ar g dx n (h0, f, fp) = Some s'"
    by (rule vc1_step_defined)
next
  assume "well_formed g h0 f fp n \<and> schedule g sched"
  then have "well_formed g h0 f fp n" "schedule g sched"
    by simp_all
  then show "\<exists>s'. vc6_step ar sched g dx n (h0, f, fp) = Some s'"
    by (rule vc6_step_defined)
next
  assume "vc1_step ar g dx n (h0, f, fp) = Some s'"
  from vc1_pass [OF this assms(5,6)] obtain h cur prev h1 h2
    where st: "vc1_step ar g dx t (h0, f, fp) = Some (h, cur, prev)"
      and rest: "vc1_interior ar (fd_coeff ar dx) g cur prev h = Some h1"
        "vc1_step ar g dx (t + 1) (h0, f, fp) = Some (h2, prev, cur)"
      and inj: "inject_all ar g prev t h1 = Some h2"
    by blast
  from vc1_step_ptrs [OF assms(5) st] assms(1-4)
  have p: "model_padded2_dt2 g \<noteq> prev" "sources g \<noteq> prev"
    by auto
  have "\<forall>i j. inb (h1 prev) (i * nx g + j) \<longrightarrow>
      cell_at h2 prev g i j =
        injected ar g (h1 (sources g)) t (cell_at h1 (model_padded2_dt2 g) g i j)
          (i * nx g + j) [0..num_sources g - 1] (cell_at h1 prev g i j)"
    using inject_sum [OF p inj] by blast
  with st rest inj
  show "\<exists>h cur prev h1 h2. vc1_step ar g dx t (h0, f, fp) = Some (h, cur, prev) \<and>
      vc1_interior ar (fd_coeff ar dx) g cur prev h = Some h1 \<and>
      inject_all ar g prev t h1 = Some h2 \<and>
      vc1_step ar g dx (t + 1) (h0, f, fp) = Some (h2, prev, cur) \<and>
      (\<forall>i j. inb (h1 prev) (i * nx g + j) \<longrightarrow>
         cell_at h2 prev g i j =
           injected ar g (h1 (sources g)) t (cell_at h1 (model_padded2_dt2 g) g i j)
             (i * nx g + j) [0..num_sources g - 1] (cell_at h1 prev g i j))"
    by blast
next
  assume "vc6_step ar sched g dx n (h0, f, fp) = Some s'"
  from vc6_pass [OF this assms(5,6)] obtain h cur prev h1 h2
    where st: "vc6_step ar sched g dx t (h0, f, fp) = Some (h, cur, prev)"
      and rest: "vc6_interior ar (sched t) (fd_coeff ar dx) g cur prev h = Some h1"
        "vc6_step ar sched g dx (t + 1) (h0, f, fp) = Some (h2, prev, cur)"
      and inj: "inject_all ar g prev t h1 = Some h2"
    by blast
  from vc6_step_ptrs [OF assms(5) st] assms(1-4)
  have p: "model_padded2_dt2 g \<noteq> prev" "sources g \<noteq> prev"
    by auto
  have "\<forall>i j. inb (h1 prev) (i * nx g + j) \<longrightarrow>
      cell_at h2 prev g i j =
        injected ar g (h1 (sources g)) t (cell_at h1 (model_padded2_dt2 g) g i j)
          (i * nx g + j) [0..num_sources g - 1] (cell_at h1 prev g i j)"
    using inject_sum [OF p inj] by blast
  with st rest inj
  show "\<exists>h cur prev h1 h2. vc6_step ar sched g dx t (h0, f, fp) = Some (h, cur, prev) \<and>
      vc6_interior ar (sched t) (fd_coeff ar dx) g cur prev h = Some h1 \<and>
      inject_all ar g prev t h1 = Some h2 \<and>
      vc6_step ar sched g dx (t + 1) (h0, f, fp) = Some (h2, prev, cur) \<and>
      (\<forall>i j. inb (h1 prev) (i * nx g + j) \<longrightarrow>
         cell_at h2 prev g i j =
           injected ar g (h1 (sources g)) t (cell_at h1 (model_padded2_dt2 g) g i j)
             (i * nx g + j) [0..num_sources g - 1] (cell_at h1 prev g i j))"
    by blast
qed

theorem injections_accumulate_witness:
  "well_formed tiny2 tiny_mem 10 20 1 \<and> model_padded2_dt2 tiny2 \<noteq> 10 \<and> model_padded2_dt2 tiny2 \<noteq> 20 \<and>
   sources tiny2 \<noteq> 10 \<and> sources tiny2 \<noteq> 20 \<and> (0 :: int) \<le> 0 \<and> (0 :: int) < 1 \<and>
   vc1_step exact tiny2 1 1 (tiny_mem, 10, 20) =
     Some (tiny_mem(20 := (replicate 289 0)[144 := 1156651 / 58800]), 20, 10) \<and>
   (\<exists>h cur prev h1 h2. vc1_step exact tiny2 1 0 (tiny_mem, 10, 20) = Some (h, cur, prev) \<and>
      vc1_interior exact (fd_coeff exact 1) tiny2 cur prev h = Some h1 \<and>
      inject_all exact tiny2 prev 0 h1 = Some h2 \<and>
      vc1_step exact tiny2 1 (0 + 1) (tiny_mem, 10, 20) = Some (h2, prev, cur) \<and>
      (\<forall>i j. inb (h1 prev) (i * nx tiny2 + j) \<longrightarrow>
         cell_at h2 prev tiny2 i j =
           injected exact tiny2 (h1 (sources tiny2)) 0 (cell_at h1 (model_padded2_dt2 tiny2) tiny2 i j)
             (i * nx tiny2 + j) [0..num_sources tiny2 - 1] (cell_at h1 prev tiny2 i j))) \<and>
   vc6_step exact (in_order tiny2) tiny2 1 1 (tiny_mem, 10, 20) =
     Some (tiny_mem(20 := (replicate 289 0)[144 := 1156651 / 58800]), 20, 10) \<and>
   (\<exists>h cur prev h1 h2.
      vc6_step exact (in_order tiny2) tiny2 1 0 (tiny_mem, 10, 20) = Some (h, cur, prev) \<and>
      vc6_interior exact (in_order tiny2 0) (fd_coeff exact 1) tiny2 cur prev h = Some h1 \<and>
      inject_all exact tiny2 prev 0 h1 = Some h2 \<and>
      vc6_step exact (in_order tiny2) tiny2 1 (0 + 1) (tiny_mem, 10, 20) = Some (h2, prev, cur) \<and>
      (\<forall>i j. inb (h1 prev) (i * nx tiny2 + j) \<longrightarrow>
         cell_at h2 prev tiny2 i j =
           injected exact tiny2 (h1 (sources tiny2)) 0 (cell_at h1 (model_padded2_dt2 tiny2) tiny2 i j)
             (i * nx tiny2 + j) [0..num_sources tiny2 - 1] (cell_at h1 prev tiny2 i j))) \<and>
   injected exact tiny2 [5, 7] 0 3 (8 * nx tiny2 + 8) [0..num_sources tiny2 - 1] (- (960149 / 58800)) =
     - (960149 / 58800) + 3 * 5 + 3 * 7 \<and>
   - (960149 / 58800) + 3 * 5 + 3 * 7 = (1156651 / 58800 :: rat)"
proof -
  have a: "model_padded2_dt2 tiny2 \<noteq> 10" "model_padded2_dt2 tiny2 \<noteq> 20"
    "sources tiny2 \<noteq> 10" "sources tiny2 \<noteq> 20" "(0 :: int) \<le> 0" "(0 :: int) < 1"
    by simp_all
  have wf: "well_formed tiny2 tiny_mem 10 20 1"
    by (simp add: well_formed_def sources_inside_def upto_rec1)
  note w = injections_accumulate [OF a, where ar = exact and dx = 1 and ?h0.0 = tiny_mem
      and s' = "(tiny_mem(20 := (replicate 289 0)[144 := 1156651 / 58800]), 20, 10)"
      and sched = "in_order tiny2"]
  have v: "injected exact tiny2 [5, 7] 0 3 (8 * nx tiny2 + 8) [0..num_sources tiny2 - 1]
      (- (960149 / 58800)) = - (960149 / 58800) + 3 * 5 + 3 * 7"
    "- (960149 / 58800) + 3 * 5 + 3 * 7 = (1156651 / 58800 :: rat)"
    by (simp_all add: injected_def upto_rec1 idx_def source_cell_def)
  from w wf a v tiny2_step1 tiny2_step1_vc6 show ?thesis
    by (simp only: simp_thms)
qed

end
